theory Spec2Isabelle
  imports Main "HOL-Library.AList"
begin

section \<open>JSON values and Python dictionaries\<close>

text \<open>
  The access-token payload is a Python \<^verbatim>\<open>Dict[str, Any]\<close> that is serialised with
  \<^verbatim>\<open>json.dumps\<close>. Its values are modelled as JSON trees; numbers are integers
  (floating point is left out). A Python dictionary keeps its keys in insertion
  order and never holds a key twice, so a dictionary is a list of entries with
  distinct keys. Dictionaries nested inside a value are only ever serialised by
  the code, so they stay plain entry lists.
\<close>

datatype json = JNull | JBool bool | JInt int | JStr string
  | JList "json list" | JObj "(string \<times> json) list"

typedef pydict = "{xs :: (string \<times> json) list. distinct (map fst xs)}"
  morphisms items Abs_pydict
  by (rule exI [of _ "[]"]) simp

setup_lifting type_definition_pydict

text \<open>\<^verbatim>\<open>{}\<close>\<close>

lift_definition dict_empty :: pydict is "[]"
  by simp

text \<open>\<^verbatim>\<open>d[k] = v\<close>: an existing key keeps its position, a new key goes last.\<close>

lift_definition dict_set :: "string \<Rightarrow> json \<Rightarrow> pydict \<Rightarrow> pydict" is "AList.update"
  by (simp add: distinct_update)

text \<open>The entries that remain after \<^verbatim>\<open>del d[k]\<close>.\<close>

lift_definition dict_remove :: "string \<Rightarrow> pydict \<Rightarrow> pydict" is "AList.delete"
  by (simp add: distinct_delete)

text \<open>\<^verbatim>\<open>d.get(k)\<close>, with \<open>None\<close> for an absent key.\<close>

definition dict_get :: "pydict \<Rightarrow> string \<Rightarrow> json option" where
  "dict_get d k = map_of (items d) k"

text \<open>\<^verbatim>\<open>d.keys()\<close>, in iteration order.\<close>

definition dict_keys :: "pydict \<Rightarrow> string list" where
  "dict_keys d = map fst (items d)"

text \<open>A dictionary display \<^verbatim>\<open>{k1: v1, k2: v2, ...}\<close>: entries are stored left to right.\<close>

definition dict_literal :: "(string \<times> json) list \<Rightarrow> pydict" where
  "dict_literal kvs = fold (\<lambda>kv d. dict_set (fst kv) (snd kv) d) kvs dict_empty"

text \<open>\<^verbatim>\<open>{**a, **b}\<close>: a new dictionary holding the entries of \<open>a\<close>, then those of \<open>b\<close>.\<close>

definition dict_spread :: "pydict \<Rightarrow> pydict \<Rightarrow> pydict" where
  "dict_spread a b = fold (\<lambda>kv d. dict_set (fst kv) (snd kv) d) (items b) a"

section \<open>Errors\<close>

datatype claim_validation_error = ClaimValidationError (err_id: string) (err_reason: json)

text \<open>
  \<open>UnauthorisedError\<close> and \<open>InvalidClaimsError\<close> are what
  \<^verbatim>\<open>raise_unauthorised_exception\<close> and \<^verbatim>\<open>raise_invalid_claims_exception\<close> raise;
  \<open>KeyError\<close> is Python's own, raised by \<^verbatim>\<open>d[k]\<close> and \<^verbatim>\<open>del d[k]\<close> on an absent key.
\<close>

datatype error =
    UnauthorisedError string
  | InvalidClaimsError string "claim_validation_error list"
  | KeyError string

definition py_getitem :: "pydict \<Rightarrow> string \<Rightarrow> error + json" where
  "py_getitem d k = (case dict_get d k of None \<Rightarrow> Inl (KeyError k) | Some v \<Rightarrow> Inr v)"

definition py_delitem :: "string \<Rightarrow> pydict \<Rightarrow> error + pydict" where
  "py_delitem k d = (if k \<in> set (dict_keys d) then Inr (dict_remove k d) else Inl (KeyError k))"

section \<open>json.dumps\<close>

text \<open>
  \<^verbatim>\<open>json.dumps\<close> with its default arguments: items separated by a comma and a
  space, keys and values by a colon and a space, keys in the dictionary's own
  order, every character outside the printable ASCII range escaped.
\<close>

definition hex_digit :: "nat \<Rightarrow> char" where
  "hex_digit n = (''0123456789abcdef'') ! (n mod 16)"

definition escape_char :: "char \<Rightarrow> string" where
  "escape_char c =
     (if c = CHR 0x22 then [CHR 0x5C, CHR 0x22]
      else if c = CHR 0x5C then [CHR 0x5C, CHR 0x5C]
      else if c = CHR 0x0A then [CHR 0x5C, CHR ''n'']
      else if c = CHR 0x0D then [CHR 0x5C, CHR ''r'']
      else if c = CHR 0x09 then [CHR 0x5C, CHR ''t'']
      else if c = CHR 0x0C then [CHR 0x5C, CHR ''f'']
      else if c = CHR 0x08 then [CHR 0x5C, CHR ''b'']
      else if (of_char c :: nat) < 32 \<or> 126 < (of_char c :: nat)
        then [CHR 0x5C, CHR ''u'', CHR ''0'', CHR ''0'',
              hex_digit (of_char c div 16), hex_digit (of_char c)]
      else [c])"

definition dumps_str :: "string \<Rightarrow> string" where
  "dumps_str s = [CHR 0x22] @ concat (map escape_char s) @ [CHR 0x22]"

fun dumps_nat :: "nat \<Rightarrow> string" where
  "dumps_nat n =
     (if n < 10 then [hex_digit n] else dumps_nat (n div 10) @ [hex_digit (n mod 10)])"

declare dumps_nat.simps [simp del]

definition dumps_int :: "int \<Rightarrow> string" where
  "dumps_int i = (if i < 0 then CHR ''-'' # dumps_nat (nat (- i)) else dumps_nat (nat i))"

fun join :: "string \<Rightarrow> string list \<Rightarrow> string" where
  "join sep [] = []"
| "join sep [x] = x"
| "join sep (x # y # ys) = x @ sep @ join sep (y # ys)"

fun json_dumps :: "json \<Rightarrow> string" where
  "json_dumps JNull = ''null''"
| "json_dumps (JBool b) = (if b then ''true'' else ''false'')"
| "json_dumps (JInt i) = dumps_int i"
| "json_dumps (JStr s) = dumps_str s"
| "json_dumps (JList xs) = ''['' @ join '', '' (map json_dumps xs) @ '']''"
| "json_dumps (JObj kvs) =
     ''{'' @ join '', ''
        (map (\<lambda>kv. dumps_str (fst kv) @ '': '' @ json_dumps (snd kv)) kvs) @ ''}''"

text \<open>\<^verbatim>\<open>json.dumps(d)\<close> for a dictionary \<open>d\<close>.\<close>

definition dumps_dict :: "pydict \<Rightarrow> string" where
  "dumps_dict d = json_dumps (JObj (items d))"

text \<open>Python truthiness, as \<^verbatim>\<open>not x\<close> tests it; \<open>None\<close> stands for Python's \<^verbatim>\<open>None\<close>.\<close>

fun truthy :: "json option \<Rightarrow> bool" where
  "truthy None = False"
| "truthy (Some JNull) = False"
| "truthy (Some (JBool b)) = b"
| "truthy (Some (JInt i)) = (i \<noteq> 0)"
| "truthy (Some (JStr s)) = (s \<noteq> [])"
| "truthy (Some (JList xs)) = (xs \<noteq> [])"
| "truthy (Some (JObj kvs)) = (kvs \<noteq> [])"

section \<open>Session state and the store gateway\<close>

text \<open>
  The optional \<^verbatim>\<open>user_context\<close> argument: \<open>None\<close> is Python's \<^verbatim>\<open>None\<close>.
\<close>

type_synonym user_context = "pydict option"

text \<open>The answer of \<^verbatim>\<open>regenerate_access_token\<close>: \<^verbatim>\<open>response.access_token\<close> and
  \<^verbatim>\<open>response.session.user_data_in_jwt\<close>.\<close>

record access_token_obj =
  token :: string
  expiry :: int
  created_time :: int

record regenerate_response =
  user_data_in_jwt :: pydict
  resp_access_token :: "access_token_obj option"

text \<open>
  \<^verbatim>\<open>recipe_implementation.regenerate_access_token(access_token, new_payload, user_context)\<close>;
  \<open>None\<close> when the session is gone. The client itself is outside the sources and is
  a parameter of every operation that calls it.
\<close>

type_synonym gateway = "string \<Rightarrow> pydict \<Rightarrow> pydict \<Rightarrow> regenerate_response option"

record regen_call =
  call_token :: string
  call_payload :: pydict
  call_context :: pydict

record session =
  session_handle :: string
  user_id :: string
  access_token :: string
  access_token_payload :: pydict
  new_access_token_info :: "pydict option"
  remove_cookies :: bool

text \<open>
  What a call on the session leaves behind: the value or the exception, the
  session's fields afterwards, and the calls made on the gateway, in order.
\<close>

record outcome =
  result :: "error + unit"
  session_after :: session
  gateway_calls :: "regen_call list"

text \<open>\<^verbatim>\<open>if user_context is None: user_context = {}\<close>\<close>

definition default_context :: "user_context \<Rightarrow> pydict" where
  "default_context uc = (case uc of None \<Rightarrow> dict_empty | Some c \<Rightarrow> c)"

definition update_access_token_payload ::
  "gateway \<Rightarrow> pydict \<Rightarrow> user_context \<Rightarrow> session \<Rightarrow> outcome" where
  "update_access_token_payload gw new_access_token_payload uc s =
     (let uc1 = default_context uc;
          call = \<lparr>call_token = access_token s, call_payload = new_access_token_payload,
                  call_context = uc1\<rparr>
      in case gw (access_token s) new_access_token_payload uc1 of
           None \<Rightarrow>
             \<lparr>result = Inl (UnauthorisedError ''Session does not exist anymore.''),
              session_after = s, gateway_calls = [call]\<rparr>
         | Some response \<Rightarrow>
             (let s1 = s\<lparr>access_token_payload := user_data_in_jwt response\<rparr>;
                  s2 = (case resp_access_token response of
                          None \<Rightarrow> s1
                        | Some t \<Rightarrow>
                            s1\<lparr>access_token := token t,
                               new_access_token_info := Some (dict_literal
                                 [(''token'', JStr (token t)),
                                  (''expiry'', JInt (expiry t)),
                                  (''createdTime'', JInt (created_time t))])\<rparr>)
              in \<lparr>result = Inr (), session_after = s2, gateway_calls = [call]\<rparr>))"

section \<open>merge_into_access_token_payload\<close>

text \<open>
  The loop \<^verbatim>\<open>for k in access_token_payload_update.keys()\<close> over the update's keys,
  deleting from the new dictionary every key whose update value is \<^verbatim>\<open>None\<close>.
\<close>

fun del_tombstones :: "pydict \<Rightarrow> string list \<Rightarrow> pydict \<Rightarrow> error + pydict" where
  "del_tombstones upd [] update_payload = Inr update_payload"
| "del_tombstones upd (k # ks) update_payload =
     (case py_getitem upd k of
        Inl e \<Rightarrow> Inl e
      | Inr v \<Rightarrow>
          if v = JNull then
            (case py_delitem k update_payload of
               Inl e \<Rightarrow> Inl e
             | Inr d \<Rightarrow> del_tombstones upd ks d)
          else del_tombstones upd ks update_payload)"

text \<open>Lines 217 to 223: the payload that is handed to \<^verbatim>\<open>update_access_token_payload\<close>.\<close>

definition merged_payload :: "pydict \<Rightarrow> pydict \<Rightarrow> error + pydict" where
  "merged_payload base upd = del_tombstones upd (dict_keys upd) (dict_spread base upd)"

definition merge_into_access_token_payload ::
  "gateway \<Rightarrow> pydict \<Rightarrow> user_context \<Rightarrow> session \<Rightarrow> outcome" where
  "merge_into_access_token_payload gw payload_update uc s =
     (case merged_payload (access_token_payload s) payload_update of
        Inl e \<Rightarrow> \<lparr>result = Inl e, session_after = s, gateway_calls = []\<rparr>
      | Inr update_payload \<Rightarrow> update_access_token_payload gw update_payload uc s)"

section \<open>Claims and validators\<close>

text \<open>
  \<^verbatim>\<open>SessionClaim\<close> and \<^verbatim>\<open>SessionClaimValidator\<close> are interfaces whose
  implementations the caller supplies. Each method is a function of its
  arguments that returns its result and leaves the dictionaries it is handed as
  they are: a method that writes into the payload it receives is not covered.
  The methods \<^verbatim>\<open>add_to_payload_\<close> and \<^verbatim>\<open>remove_from_payload_by_merge_\<close> lose
  their trailing underscore here. \<^verbatim>\<open>fetch_value\<close> answers \<open>JNull\<close> for Python's
  \<^verbatim>\<open>None\<close>. A validator without a \<^verbatim>\<open>claim\<close> attribute, or with
  \<^verbatim>\<open>claim = None\<close>, has \<open>claim = None\<close>. The validator's \<^verbatim>\<open>id\<close> is \<open>vid\<close>.
\<close>

record session_claim =
  fetch_value :: "string \<Rightarrow> user_context \<Rightarrow> json"
  add_to_payload :: "pydict \<Rightarrow> json \<Rightarrow> user_context \<Rightarrow> pydict"
  remove_from_payload_by_merge :: "pydict \<Rightarrow> user_context \<Rightarrow> pydict"
  get_value_from_payload :: "pydict \<Rightarrow> user_context \<Rightarrow> json"
  build :: "string \<Rightarrow> user_context \<Rightarrow> pydict"

record session_claim_validator =
  vid :: string
  claim :: "session_claim option"
  should_refetch :: "pydict \<Rightarrow> user_context \<Rightarrow> bool"
  validate :: "pydict \<Rightarrow> user_context \<Rightarrow> pydict"

section \<open>assert_claims\<close>

text \<open>Lines 138 to 161: the payload after the refetch of one validator.\<close>

definition refetch :: "string \<Rightarrow> user_context \<Rightarrow> session_claim_validator \<Rightarrow> pydict \<Rightarrow> pydict" where
  "refetch uid uc validator new_access_token_payload =
     (case claim validator of
        None \<Rightarrow> new_access_token_payload
      | Some c \<Rightarrow>
          if should_refetch validator new_access_token_payload uc then
            (let v = fetch_value c uid uc
             in if v \<noteq> JNull then add_to_payload c new_access_token_payload v uc
                else new_access_token_payload)
          else new_access_token_payload)"

text \<open>
  The loop over \<^verbatim>\<open>claim_validators\<close>, lines 136 to 174, carrying
  \<^verbatim>\<open>new_access_token_payload\<close> and \<^verbatim>\<open>validation_errors\<close>. The calls of
  \<^verbatim>\<open>log_debug_message\<close> write a log and are left out.
\<close>

fun validate_loop ::
  "string \<Rightarrow> user_context \<Rightarrow> session_claim_validator list \<Rightarrow> pydict \<Rightarrow>
   claim_validation_error list \<Rightarrow> error + (pydict \<times> claim_validation_error list)" where
  "validate_loop uid uc [] payload validation_errors = Inr (payload, validation_errors)"
| "validate_loop uid uc (validator # rest) payload validation_errors =
     (let payload1 = refetch uid uc validator payload;
          claim_validation_res = validate validator payload1 uc
      in if \<not> truthy (dict_get claim_validation_res ''isValid'') then
           (case py_getitem claim_validation_res ''reason'' of
              Inl e \<Rightarrow> Inl e
            | Inr reason \<Rightarrow>
                validate_loop uid uc rest payload1
                  (validation_errors @ [ClaimValidationError (vid validator) reason]))
         else validate_loop uid uc rest payload1 validation_errors)"

definition assert_claims ::
  "gateway \<Rightarrow> session_claim_validator list \<Rightarrow> user_context \<Rightarrow> session \<Rightarrow> outcome" where
  "assert_claims gw claim_validators uc s =
     (let original_session_claim_payload_json = dumps_dict (access_token_payload s)
      in case validate_loop (user_id s) uc claim_validators (access_token_payload s) [] of
           Inl e \<Rightarrow> \<lparr>result = Inl e, session_after = s, gateway_calls = []\<rparr>
         | Inr (new_access_token_payload, validation_errors) \<Rightarrow>
             (let merged =
                    (if dumps_dict new_access_token_payload
                          \<noteq> original_session_claim_payload_json
                     then merge_into_access_token_payload gw new_access_token_payload uc s
                     else \<lparr>result = Inr (), session_after = s, gateway_calls = []\<rparr>)
              in case result merged of
                   Inl e \<Rightarrow> merged
                 | Inr u \<Rightarrow>
                     if length validation_errors > 0
                     then merged\<lparr>result :=
                            Inl (InvalidClaimsError ''INVALID_CLAIMS'' validation_errors)\<rparr>
                     else merged))"

section \<open>Claim helpers\<close>

definition fetch_and_set_claim ::
  "gateway \<Rightarrow> session_claim \<Rightarrow> user_context \<Rightarrow> session \<Rightarrow> outcome" where
  "fetch_and_set_claim gw c uc s =
     merge_into_access_token_payload gw (build c (user_id s) uc) uc s"

definition set_claim_value ::
  "gateway \<Rightarrow> session_claim \<Rightarrow> json \<Rightarrow> user_context \<Rightarrow> session \<Rightarrow> outcome" where
  "set_claim_value gw c v uc s =
     merge_into_access_token_payload gw (add_to_payload c dict_empty v uc) uc s"

definition get_claim_value :: "session_claim \<Rightarrow> user_context \<Rightarrow> session \<Rightarrow> json" where
  "get_claim_value c uc s = get_value_from_payload c (access_token_payload s) uc"

definition remove_claim ::
  "gateway \<Rightarrow> session_claim \<Rightarrow> user_context \<Rightarrow> session \<Rightarrow> outcome" where
  "remove_claim gw c uc s =
     (let uc1 = Some (default_context uc);
          update = remove_from_payload_by_merge c dict_empty uc1
      in merge_into_access_token_payload gw update uc1 s)"

section \<open>The merge on a store of dictionary objects\<close>

text \<open>
  Lines 217 to 223 once more, with the dictionaries as objects in a store: an
  address is an index into the list of objects, the spread allocates a new
  object at the end, and \<^verbatim>\<open>del update_payload[k]\<close> writes that object.
\<close>

type_synonym store = "pydict list"

fun store_del_tombstones :: "nat \<Rightarrow> string list \<Rightarrow> nat \<Rightarrow> store \<Rightarrow> error + store" where
  "store_del_tombstones upd [] r h = Inr h"
| "store_del_tombstones upd (k # ks) r h =
     (case py_getitem (h ! upd) k of
        Inl e \<Rightarrow> Inl e
      | Inr v \<Rightarrow>
          if v = JNull then
            (case py_delitem k (h ! r) of
               Inl e \<Rightarrow> Inl e
             | Inr d \<Rightarrow> store_del_tombstones upd ks r (h[r := d]))
          else store_del_tombstones upd ks r h)"

definition store_merge :: "store \<Rightarrow> nat \<Rightarrow> nat \<Rightarrow> error + (nat \<times> store)" where
  "store_merge h base upd =
     (let r = length h;
          h1 = h @ [dict_spread (h ! base) (h ! upd)]
      in case store_del_tombstones upd (dict_keys (h1 ! upd)) r h1 of
           Inl e \<Rightarrow> Inl e
         | Inr h2 \<Rightarrow> Inr (r, h2))"

section \<open>Notions of the specification\<close>

text \<open>
  Deep structural equality as the specification words it for the "changed?"
  test: two mappings are equal when they have the same keys and equal values
  under each key, whatever the order of the keys; sequences are compared
  position by position. This is the specification's notion, to be compared
  with the test on serialised forms that \<open>assert_claims\<close> makes.
\<close>

function (sequential) deep_equal :: "json \<Rightarrow> json \<Rightarrow> bool" where
  "deep_equal (JList xs) (JList ys) =
     (length xs = length ys \<and> list_all (\<lambda>xy. deep_equal (fst xy) (snd xy)) (zip xs ys))"
| "deep_equal (JObj a) (JObj b) =
     (set (map fst a) = set (map fst b) \<and>
      list_all (\<lambda>kv. case map_of b (fst kv) of
                        None \<Rightarrow> False
                      | Some v \<Rightarrow> deep_equal (snd kv) v) a)"
| "deep_equal x y = (x = y)"
  by pat_completeness auto

termination deep_equal
proof (relation "measure (\<lambda>p. size (fst p))")
  show "wf (measure (\<lambda>p. size (fst p)))" by simp
next
  fix xs ys :: "json list" and x :: "json \<times> json"
  assume "x \<in> set (zip xs ys)"
  then have "fst x \<in> set xs" by (metis prod.collapse set_zip_leftD)
  from size_list_estimation' [OF this le_refl, of size]
  show "((fst x, snd x), JList xs, JList ys) \<in> measure (\<lambda>p. size (fst p))" by simp
next
  fix a b :: "(string \<times> json) list" and x :: "string \<times> json" and x2 :: json
  assume "x \<in> set a"
  from size_list_estimation' [OF this le_refl, of "size_prod (\<lambda>x. 0) size"]
  show "((snd x, x2), JObj a, JObj b) \<in> measure (\<lambda>p. size (fst p))"
    by (cases x) simp
qed

definition payload_deep_equal :: "pydict \<Rightarrow> pydict \<Rightarrow> bool" where
  "payload_deep_equal p q = deep_equal (JObj (items p)) (JObj (items q))"

text \<open>
  The working payload once the first \<open>i\<close> validators of the list have had their
  refetch, and the validation error (none or one) that a validator yields on a
  payload.
\<close>

definition working_after ::
  "string \<Rightarrow> user_context \<Rightarrow> session_claim_validator list \<Rightarrow> pydict \<Rightarrow> nat \<Rightarrow> pydict" where
  "working_after uid uc vs p i = fold (refetch uid uc) (take i vs) p"

definition failure_of ::
  "session_claim_validator \<Rightarrow> pydict \<Rightarrow> user_context \<Rightarrow> claim_validation_error list" where
  "failure_of v p uc =
     (let res = validate v p uc
      in if truthy (dict_get res ''isValid'') then []
         else (case dict_get res ''reason'' of
                 None \<Rightarrow> []
               | Some r \<Rightarrow> [ClaimValidationError (vid v) r]))"

section \<open>Reading a serialisation back\<close>

text \<open>
  Notions used to show that \<open>json_dumps\<close> loses nothing: digits and their values,
  what may follow a number, the text after an element of a sequence, and the
  characters a serialised value can start with.
\<close>

definition is_digit :: "char \<Rightarrow> bool" where
  "is_digit c = (c \<in> set ''0123456789'')"

definition digit_val :: "char \<Rightarrow> nat" where
  "digit_val c = of_char c - 48"

definition read_nat :: "string \<Rightarrow> nat" where
  "read_nat s = foldl (\<lambda>a c. 10 * a + digit_val c) 0 s"

text \<open>What may follow a value: nothing, or a character that is not a digit.\<close>


definition follow_ok :: "string \<Rightarrow> bool" where
  "follow_ok r = (case r of [] \<Rightarrow> True | c # _ \<Rightarrow> \<not> is_digit c)"

definition hex_val :: "char \<Rightarrow> nat" where
  "hex_val c = (if is_digit c then of_char c - 48 else of_char c - 87)"

text \<open>The text after an element of a sequence: the closing bracket, or a comma and
  the remaining elements.\<close>


definition after_elem :: "char \<Rightarrow> string list \<Rightarrow> string \<Rightarrow> string" where
  "after_elem cl es r = (if es = [] then cl # r else '', '' @ join '', '' es @ cl # r)"

text \<open>The characters a serialised value can start with; they tell its constructor.\<close>


fun first_chars :: "json \<Rightarrow> char set" where
  "first_chars JNull = {CHR ''n''}"
| "first_chars (JBool b) = {if b then CHR ''t'' else CHR ''f''}"
| "first_chars (JInt i) = insert CHR ''-'' (set ''0123456789'')"
| "first_chars (JStr s) = {CHR 0x22}"
| "first_chars (JList xs) = {CHR ''[''}"
| "first_chars (JObj kvs) = {CHR ''{''}"

section \<open>Sample sessions, claims, validators and gateways\<close>

definition sample_session :: session where
  "sample_session =
     \<lparr>session_handle = ''h1'', user_id = ''u1'', access_token = ''t0'',
      access_token_payload = dict_literal [(''role'', JStr ''user''), (''sub'', JStr ''u1'')],
      new_access_token_info = None, remove_cookies = False\<rparr>"

text \<open>A gateway that stores the payload as sent and issues no new token.\<close>

definition echo_gateway :: gateway where
  "echo_gateway tok payload uc = Some \<lparr>user_data_in_jwt = payload, resp_access_token = None\<rparr>"

text \<open>A gateway that stores the payload as sent and issues a new token.\<close>

definition reissue_gateway :: gateway where
  "reissue_gateway tok payload uc =
     Some \<lparr>user_data_in_jwt = payload,
           resp_access_token = Some \<lparr>token = ''t1'', expiry = 3600, created_time = 100\<rparr>\<rparr>"

text \<open>A gateway that no longer knows the session.\<close>

definition gone_gateway :: gateway where
  "gone_gateway tok payload uc = None"

text \<open>
  A claim kept under the key \<^verbatim>\<open>role\<close>: it returns \<^verbatim>\<open>{**payload, "role": value}\<close>
  to add its value and \<^verbatim>\<open>{**payload, "role": None}\<close> to mark it for removal; its
  store answers \<^verbatim>\<open>"admin"\<close>.
\<close>

definition role_claim :: session_claim where
  "role_claim =
     \<lparr>fetch_value = (\<lambda>uid uc. JStr ''admin''),
      add_to_payload = (\<lambda>payload v uc. dict_set ''role'' v payload),
      remove_from_payload_by_merge = (\<lambda>payload uc. dict_set ''role'' JNull payload),
      get_value_from_payload =
        (\<lambda>payload uc. case dict_get payload ''role'' of None \<Rightarrow> JNull | Some v \<Rightarrow> v),
      build = (\<lambda>uid uc. dict_literal [(''role'', JStr ''admin'')])\<rparr>"

text \<open>
  The same claim, adding its value as a new dictionary that holds the other
  entries of the payload first and \<^verbatim>\<open>role\<close> last,
  \<^verbatim>\<open>{**{k: v for k, v in payload.items() if k != "role"}, "role": value}\<close>; its
  store answers \<^verbatim>\<open>"user"\<close>.
\<close>

definition moving_claim :: session_claim where
  "moving_claim =
     role_claim\<lparr>fetch_value := (\<lambda>uid uc. JStr ''user''),
                add_to_payload := (\<lambda>payload v uc. dict_set ''role'' v (dict_remove ''role'' payload))\<rparr>"

definition passing_validator :: session_claim_validator where
  "passing_validator =
     \<lparr>vid = ''plain'', claim = None, should_refetch = (\<lambda>payload uc. False),
      validate = (\<lambda>payload uc. dict_literal [(''isValid'', JBool True)])\<rparr>"

definition admin_validator :: session_claim_validator where
  "admin_validator =
     \<lparr>vid = ''role'', claim = Some role_claim, should_refetch = (\<lambda>payload uc. True),
      validate = (\<lambda>payload uc.
        if dict_get payload ''role'' = Some (JStr ''admin'')
        then dict_literal [(''isValid'', JBool True)]
        else dict_literal [(''isValid'', JBool False), (''reason'', JStr ''not admin'')])\<rparr>"

definition failing_validator :: session_claim_validator where
  "failing_validator =
     \<lparr>vid = ''mfa'', claim = None, should_refetch = (\<lambda>payload uc. False),
      validate = (\<lambda>payload uc.
        dict_literal [(''isValid'', JBool False), (''reason'', JStr ''no second factor'')])\<rparr>"

definition reasonless_validator :: session_claim_validator where
  "reasonless_validator =
     \<lparr>vid = ''bare'', claim = None, should_refetch = (\<lambda>payload uc. False),
      validate = (\<lambda>payload uc. dict_literal [(''isValid'', JBool False)])\<rparr>"

definition moving_validator :: session_claim_validator where
  "moving_validator =
     \<lparr>vid = ''role'', claim = Some moving_claim, should_refetch = (\<lambda>payload uc. True),
      validate = (\<lambda>payload uc. dict_literal [(''isValid'', JBool True)])\<rparr>"

section \<open>Dictionary lookups\<close>

lemma dict_get_empty [simp]: "dict_get dict_empty k = None"
  by (simp add: dict_get_def dict_empty.rep_eq)

lemma dict_get_set [simp]:
  "dict_get (dict_set k v d) k' = (if k' = k then Some v else dict_get d k')"
  by (simp add: dict_get_def dict_set.rep_eq update_conv')

lemma dict_get_remove [simp]:
  "dict_get (dict_remove k d) k' = (if k' = k then None else dict_get d k')"
  by (simp add: dict_get_def dict_remove.rep_eq delete_conv')

lemma in_dict_keys: "k \<in> set (dict_keys d) \<longleftrightarrow> dict_get d k \<noteq> None"
  by (simp add: dict_keys_def dict_get_def map_of_eq_None_iff)

lemma distinct_dict_keys [simp]: "distinct (dict_keys d)"
  using items [of d] by (simp add: dict_keys_def)

lemma dict_get_fold_set:
  "distinct (map fst kvs) \<Longrightarrow>
   dict_get (fold (\<lambda>kv d. dict_set (fst kv) (snd kv) d) kvs a) k =
     (case map_of kvs k of None \<Rightarrow> dict_get a k | Some v \<Rightarrow> Some v)"
proof (induction kvs arbitrary: a)
  case Nil
  then show ?case by simp
next
  case (Cons kv kvs)
  obtain k0 v0 where kv: "kv = (k0, v0)" by (cases kv)
  from Cons.prems kv have none: "map_of kvs k0 = None" and d: "distinct (map fst kvs)"
    by (auto simp: map_of_eq_None_iff)
  show ?case
    using Cons.IH [OF d, of "dict_set k0 v0 a"] none
    by (simp add: kv split: option.splits)
qed

lemma dict_get_spread:
  "dict_get (dict_spread a b) k =
     (case dict_get b k of None \<Rightarrow> dict_get a k | Some v \<Rightarrow> Some v)"
  using items [of b] by (simp add: dict_spread_def dict_get_fold_set) (simp add: dict_get_def)

lemma del_tombstones_total:
  "set ks \<subseteq> set (dict_keys upd) \<Longrightarrow> distinct ks \<Longrightarrow> set ks \<subseteq> set (dict_keys acc) \<Longrightarrow>
   \<exists>p. del_tombstones upd ks acc = Inr p \<and>
       (\<forall>k. dict_get p k =
          (if k \<in> set ks \<and> dict_get upd k = Some JNull then None else dict_get acc k))"
proof (induction ks arbitrary: acc)
  case Nil
  then show ?case by simp
next
  case (Cons k ks)
  from Cons.prems obtain v where v: "dict_get upd k = Some v"
    by (auto simp: in_dict_keys)
  show ?case
  proof (cases "v = JNull")
    case True
    have sub: "set ks \<subseteq> set (dict_keys (dict_remove k acc))"
      using Cons.prems by (auto simp: in_dict_keys)
    from Cons.IH [OF _ _ sub] Cons.prems obtain p where
      p: "del_tombstones upd ks (dict_remove k acc) = Inr p"
      and g: "\<And>k'. dict_get p k' =
          (if k' \<in> set ks \<and> dict_get upd k' = Some JNull then None
           else dict_get (dict_remove k acc) k')"
      by auto
    have "del_tombstones upd (k # ks) acc = Inr p"
      using v True p Cons.prems by (simp add: py_getitem_def py_delitem_def)
    moreover have "dict_get p k' =
        (if k' \<in> set (k # ks) \<and> dict_get upd k' = Some JNull then None else dict_get acc k')" for k'
      using g [of k'] v True by auto
    ultimately show ?thesis by blast
  next
    case False
    from Cons.IH [of acc] Cons.prems obtain p where
      p: "del_tombstones upd ks acc = Inr p"
      and g: "\<And>k'. dict_get p k' =
          (if k' \<in> set ks \<and> dict_get upd k' = Some JNull then None else dict_get acc k')"
      by auto
    have "del_tombstones upd (k # ks) acc = Inr p"
      using v False p by (simp add: py_getitem_def)
    moreover have "dict_get p k' =
        (if k' \<in> set (k # ks) \<and> dict_get upd k' = Some JNull then None else dict_get acc k')" for k'
      using g [of k'] v False by auto
    ultimately show ?thesis by blast
  qed
qed

lemma merged_payload_total:
  "\<exists>p. merged_payload base upd = Inr p \<and>
       (\<forall>k. dict_get p k =
          (case dict_get upd k of
             None \<Rightarrow> dict_get base k
           | Some v \<Rightarrow> if v = JNull then None else Some v))"
proof -
  have sub: "set (dict_keys upd) \<subseteq> set (dict_keys (dict_spread base upd))"
    by (auto simp: in_dict_keys dict_get_spread split: option.splits)
  from del_tombstones_total [OF subset_refl distinct_dict_keys sub]
  obtain p where p: "del_tombstones upd (dict_keys upd) (dict_spread base upd) = Inr p"
    and g: "\<And>k. dict_get p k =
       (if k \<in> set (dict_keys upd) \<and> dict_get upd k = Some JNull then None
        else dict_get (dict_spread base upd) k)"
    by blast
  have "dict_get p k =
          (case dict_get upd k of
             None \<Rightarrow> dict_get base k
           | Some v \<Rightarrow> if v = JNull then None else Some v)" for k
    using g [of k] by (auto simp: in_dict_keys dict_get_spread split: option.splits)
  with p show ?thesis by (auto simp: merged_payload_def)
qed


lemma merged_payload_empty: "merged_payload base dict_empty = Inr base"
  by (simp add: merged_payload_def dict_keys_def dict_spread_def dict_empty.rep_eq)

section \<open>The merge removes tombstoned keys\<close>

text \<open>
  C3. For every base payload and every update map the merge of
  \<open>merge_into_access_token_payload\<close> returns a payload (it never raises) in which
  every key whose update value is the tombstone \<open>JNull\<close> is absent, whether or not
  the base had it, every other key of the update holds its update value, and every
  key outside the update holds what the base held. No key of the update is left
  holding the tombstone.
\<close>
theorem merge_tombstone_deletes:
  "\<exists>p. merged_payload base upd = Inr p \<and>
       (\<forall>k. (dict_get upd k = Some JNull \<longrightarrow> dict_get p k = None) \<and>
            (\<forall>v. dict_get upd k = Some v \<and> v \<noteq> JNull \<longrightarrow> dict_get p k = Some v) \<and>
            (dict_get upd k = None \<longrightarrow> dict_get p k = dict_get base k) \<and>
            (k \<in> set (dict_keys upd) \<longrightarrow> dict_get p k \<noteq> Some JNull))"
proof -
  from merged_payload_total [of base upd] obtain p where
    p: "merged_payload base upd = Inr p"
    and g: "\<And>k. dict_get p k =
          (case dict_get upd k of
             None \<Rightarrow> dict_get base k
           | Some v \<Rightarrow> if v = JNull then None else Some v)"
    by blast
  have "(dict_get upd k = Some JNull \<longrightarrow> dict_get p k = None) \<and>
        (\<forall>v. dict_get upd k = Some v \<and> v \<noteq> JNull \<longrightarrow> dict_get p k = Some v) \<and>
        (dict_get upd k = None \<longrightarrow> dict_get p k = dict_get base k) \<and>
        (k \<in> set (dict_keys upd) \<longrightarrow> dict_get p k \<noteq> Some JNull)" for k
    using g [of k] by (auto simp: in_dict_keys split: if_splits)
  with p show ?thesis by blast
qed

lemmas dict_eval = dict_literal_def dict_get_def dict_keys_def dict_spread_def
  dict_set.rep_eq dict_remove.rep_eq dict_empty.rep_eq

theorem merge_tombstone_deletes_witness:
  "\<exists>p. merged_payload (dict_literal [(''role'', JStr ''user''), (''sub'', JStr ''u1'')])
          (dict_literal [(''role'', JNull), (''exp'', JInt 7)]) = Inr p \<and>
       dict_get p ''role'' = None \<and> dict_get p ''exp'' = Some (JInt 7) \<and>
       dict_get p ''sub'' = Some (JStr ''u1'')"
proof -
  let ?b = "dict_literal [(''role'', JStr ''user''), (''sub'', JStr ''u1'')]"
  let ?u = "dict_literal [(''role'', JNull), (''exp'', JInt 7)]"
  have u1: "dict_get ?u ''role'' = Some JNull" by (simp add: dict_eval)
  have u2: "dict_get ?u ''exp'' = Some (JInt 7)" by (simp add: dict_eval)
  have u3: "dict_get ?u ''sub'' = None" by (simp add: dict_eval)
  have b3: "dict_get ?b ''sub'' = Some (JStr ''u1'')" by (simp add: dict_eval)
  from merge_tombstone_deletes [of ?b ?u] obtain p where
    p: "merged_payload ?b ?u = Inr p"
    and a: "\<And>k. dict_get ?u k = Some JNull \<longrightarrow> dict_get p k = None"
    and b: "\<And>k v. dict_get ?u k = Some v \<and> v \<noteq> JNull \<longrightarrow> dict_get p k = Some v"
    and c: "\<And>k. dict_get ?u k = None \<longrightarrow> dict_get p k = dict_get ?b k"
    by blast
  from a [of "''role''"] u1 have "dict_get p ''role'' = None" by simp
  moreover from b [of "''exp''" "JInt 7"] u2 have "dict_get p ''exp'' = Some (JInt 7)" by simp
  moreover from c [of "''sub''"] u3 b3 have "dict_get p ''sub'' = Some (JStr ''u1'')" by simp
  ultimately show ?thesis using p by blast
qed

section \<open>One call on the gateway\<close>

lemma merge_into_unfold:
  "\<exists>p. merged_payload (access_token_payload s) upd = Inr p \<and>
       merge_into_access_token_payload gw upd uc s = update_access_token_payload gw p uc s \<and>
       (\<forall>k. dict_get p k =
          (case dict_get upd k of
             None \<Rightarrow> dict_get (access_token_payload s) k
           | Some v \<Rightarrow> if v = JNull then None else Some v))"
proof -
  from merged_payload_total [of "access_token_payload s" upd] obtain p where
    p: "merged_payload (access_token_payload s) upd = Inr p"
    and g: "\<forall>k. dict_get p k =
          (case dict_get upd k of
             None \<Rightarrow> dict_get (access_token_payload s) k
           | Some v \<Rightarrow> if v = JNull then None else Some v)"
    by blast
  from p have "merge_into_access_token_payload gw upd uc s = update_access_token_payload gw p uc s"
    by (simp add: merge_into_access_token_payload_def)
  with p g show ?thesis by blast
qed

lemma update_calls:
  "gateway_calls (update_access_token_payload gw np uc s) =
     [\<lparr>call_token = access_token s, call_payload = np,
       call_context = (default_context uc)\<rparr>]"
  by (simp add: update_access_token_payload_def Let_def split: option.splits)

lemma update_gone:
  "gw (access_token s) np (default_context uc) = None \<Longrightarrow>
   result (update_access_token_payload gw np uc s) =
     Inl (UnauthorisedError ''Session does not exist anymore.'') \<and>
   session_after (update_access_token_payload gw np uc s) = s"
  by (simp add: update_access_token_payload_def Let_def)

lemma update_ok:
  "gw (access_token s) np (default_context uc) = Some r \<Longrightarrow>
   result (update_access_token_payload gw np uc s) = Inr () \<and>
   session_after (update_access_token_payload gw np uc s) =
     (case resp_access_token r of
        None \<Rightarrow> s\<lparr>access_token_payload := user_data_in_jwt r\<rparr>
      | Some t \<Rightarrow>
          s\<lparr>access_token_payload := user_data_in_jwt r, access_token := token t,
            new_access_token_info := Some (dict_literal
              [(''token'', JStr (token t)), (''expiry'', JInt (expiry t)),
               (''createdTime'', JInt (created_time t))])\<rparr>)"
  by (simp add: update_access_token_payload_def Let_def split: option.splits)

lemma merge_into_calls:
  "\<exists>p. merged_payload (access_token_payload s) upd = Inr p \<and>
       gateway_calls (merge_into_access_token_payload gw upd uc s) =
         [\<lparr>call_token = access_token s, call_payload = p, call_context = default_context uc\<rparr>]"
proof -
  from merge_into_unfold [of s upd gw uc] obtain p where
    p: "merged_payload (access_token_payload s) upd = Inr p"
    and m: "merge_into_access_token_payload gw upd uc s = update_access_token_payload gw p uc s"
    by blast
  then show ?thesis by (simp add: update_calls)
qed

lemma merge_into_result:
  "result (merge_into_access_token_payload gw upd uc s) = Inl e \<Longrightarrow>
   e = UnauthorisedError ''Session does not exist anymore.''"
proof -
  assume a: "result (merge_into_access_token_payload gw upd uc s) = Inl e"
  from merge_into_unfold [of s upd gw uc] obtain p where
    m: "merge_into_access_token_payload gw upd uc s = update_access_token_payload gw p uc s"
    by blast
  show ?thesis
  proof (cases "gw (access_token s) p (default_context uc)")
    case None
    from update_gone [of gw s p uc, OF None] a m show ?thesis by simp
  next
    case (Some r)
    from update_ok [of gw s p uc r, OF Some] a m show ?thesis by simp
  qed
qed

section \<open>Evaluating the samples\<close>

lemmas run_eval = dict_eval py_getitem_def py_delitem_def default_context_def refetch_def
  merged_payload_def Let_def sample_session_def echo_gateway_def reissue_gateway_def
  gone_gateway_def role_claim_def moving_claim_def passing_validator_def admin_validator_def
  failing_validator_def reasonless_validator_def moving_validator_def

lemmas dumps_eval = dumps_dict_def dumps_str_def escape_char_def dumps_int_def hex_digit_def

lemma pydict_eq_iff: "d = e \<longleftrightarrow> items d = items e"
  by (simp add: items_inject)

section \<open>A session that is gone\<close>

text \<open>
  C5. For every session and every update map, \<open>merge_into_access_token_payload\<close>
  computes the merged payload and hands it to the gateway; if the gateway answers
  that the session is gone, the call fails with \<open>UnauthorisedError\<close> carrying
  "Session does not exist anymore." and the session (payload, token, token
  information and every other field) is as it was before the call.
\<close>

theorem session_gone_unauthorised:
  "\<exists>p. merged_payload (access_token_payload s) upd = Inr p \<and>
       (gw (access_token s) p (default_context uc) = None \<longrightarrow>
          result (merge_into_access_token_payload gw upd uc s) =
            Inl (UnauthorisedError ''Session does not exist anymore.'') \<and>
          session_after (merge_into_access_token_payload gw upd uc s) = s)"
proof -
  from merge_into_unfold [of s upd gw uc] obtain p where
    p: "merged_payload (access_token_payload s) upd = Inr p"
    and m: "merge_into_access_token_payload gw upd uc s = update_access_token_payload gw p uc s"
    by blast
  show ?thesis
    using p m update_gone [of gw s p uc] by auto
qed

theorem session_gone_unauthorised_witness:
  "result (merge_into_access_token_payload gone_gateway
             (dict_literal [(''role'', JStr ''admin'')]) None sample_session) =
     Inl (UnauthorisedError ''Session does not exist anymore.'') \<and>
   session_after (merge_into_access_token_payload gone_gateway
             (dict_literal [(''role'', JStr ''admin'')]) None sample_session) = sample_session"
  using session_gone_unauthorised
    [of sample_session "dict_literal [(''role'', JStr ''admin'')]" gone_gateway None]
  by (auto simp: gone_gateway_def)

section \<open>The gateway's answer replaces payload and token\<close>

text \<open>
  C6. When \<open>regenerate_access_token\<close> answers, \<open>update_access_token_payload\<close>
  returns normally, the session's payload is the payload of the answer whatever
  payload was sent, and the token and \<open>new_access_token_info\<close> are replaced, both
  from the answer's token object, exactly when the answer carries one; without a
  token object both stay as they were. When the gateway reports the session gone,
  nothing in the session changes, so the token never changes without the payload
  being replaced in the same call.
\<close>

theorem gateway_payload_authoritative:
  "(\<forall>r. gw (access_token s) np (default_context uc) = Some r \<longrightarrow>
      result (update_access_token_payload gw np uc s) = Inr () \<and>
      access_token_payload (session_after (update_access_token_payload gw np uc s)) =
        user_data_in_jwt r \<and>
      (case resp_access_token r of
         None \<Rightarrow>
           access_token (session_after (update_access_token_payload gw np uc s)) =
             access_token s \<and>
           new_access_token_info (session_after (update_access_token_payload gw np uc s)) =
             new_access_token_info s
       | Some t \<Rightarrow>
           access_token (session_after (update_access_token_payload gw np uc s)) = token t \<and>
           new_access_token_info (session_after (update_access_token_payload gw np uc s)) =
             Some (dict_literal
               [(''token'', JStr (token t)), (''expiry'', JInt (expiry t)),
                (''createdTime'', JInt (created_time t))]))) \<and>
   (gw (access_token s) np (default_context uc) = None \<longrightarrow>
      session_after (update_access_token_payload gw np uc s) = s)"
proof (intro conjI allI impI)
  fix r
  assume r: "gw (access_token s) np (default_context uc) = Some r"
  note ok = update_ok [of gw s np uc r, OF r]
  show "result (update_access_token_payload gw np uc s) = Inr ()"
    using ok by simp
  show "access_token_payload (session_after (update_access_token_payload gw np uc s)) =
        user_data_in_jwt r"
    using ok by (simp split: option.splits)
  show "case resp_access_token r of
         None \<Rightarrow>
           access_token (session_after (update_access_token_payload gw np uc s)) =
             access_token s \<and>
           new_access_token_info (session_after (update_access_token_payload gw np uc s)) =
             new_access_token_info s
       | Some t \<Rightarrow>
           access_token (session_after (update_access_token_payload gw np uc s)) = token t \<and>
           new_access_token_info (session_after (update_access_token_payload gw np uc s)) =
             Some (dict_literal
               [(''token'', JStr (token t)), (''expiry'', JInt (expiry t)),
                (''createdTime'', JInt (created_time t))])"
    using ok by (simp split: option.splits)
next
  assume "gw (access_token s) np (default_context uc) = None"
  then show "session_after (update_access_token_payload gw np uc s) = s"
    by (simp add: update_gone)
qed

theorem gateway_payload_authoritative_witness:
  "access_token_payload (session_after (update_access_token_payload reissue_gateway
      (dict_literal [(''role'', JStr ''admin'')]) None sample_session)) =
     dict_literal [(''role'', JStr ''admin'')] \<and>
   access_token (session_after (update_access_token_payload reissue_gateway
      (dict_literal [(''role'', JStr ''admin'')]) None sample_session)) = ''t1'' \<and>
   new_access_token_info (session_after (update_access_token_payload reissue_gateway
      (dict_literal [(''role'', JStr ''admin'')]) None sample_session)) =
     Some (dict_literal [(''token'', JStr ''t1''), (''expiry'', JInt 3600),
                         (''createdTime'', JInt 100)])"
  using gateway_payload_authoritative
    [of reissue_gateway sample_session "dict_literal [(''role'', JStr ''admin'')]" None]
  by (simp add: reissue_gateway_def)

section \<open>The merge on the store\<close>

lemma store_del_tombstones_eq:
  "r < length h \<Longrightarrow> upd \<noteq> r \<Longrightarrow>
   store_del_tombstones upd ks r h =
     (case del_tombstones (h ! upd) ks (h ! r) of
        Inl e \<Rightarrow> Inl e
      | Inr d \<Rightarrow> Inr (h[r := d]))"
proof (induction ks arbitrary: h)
  case Nil
  then show ?case by simp
next
  case (Cons k ks)
  show ?case
  proof (cases "py_getitem (h ! upd) k")
    case (Inl e)
    then show ?thesis by simp
  next
    case (Inr v)
    show ?thesis
    proof (cases "v = JNull")
      case False
      with Inr Cons show ?thesis by simp
    next
      case True
      show ?thesis
      proof (cases "py_delitem k (h ! r)")
        case (Inl e)
        with Inr True show ?thesis by simp
      next
        case d: (Inr d)
        have "store_del_tombstones upd ks r (h[r := d]) =
              (case del_tombstones ((h[r := d]) ! upd) ks ((h[r := d]) ! r) of
                 Inl e \<Rightarrow> Inl e
               | Inr d' \<Rightarrow> Inr ((h[r := d])[r := d']))"
          using Cons.prems by (intro Cons.IH) simp_all
        with Inr True d Cons.prems show ?thesis by (simp split: sum.splits)
      qed
    qed
  qed
qed

lemma store_merge_eq:
  assumes "base < length h" and "upd < length h"
  shows "store_merge h base upd =
     (case merged_payload (h ! base) (h ! upd) of
        Inl e \<Rightarrow> Inl e
      | Inr p \<Rightarrow> Inr (length h, h @ [p]))"
proof -
  let ?h1 = "h @ [dict_spread (h ! base) (h ! upd)]"
  have u: "?h1 ! upd = h ! upd" using assms by (simp add: nth_append)
  have "store_del_tombstones upd (dict_keys (h ! upd)) (length h) ?h1 =
     (case del_tombstones (?h1 ! upd) (dict_keys (h ! upd)) (?h1 ! length h) of
        Inl e \<Rightarrow> Inl e
      | Inr d \<Rightarrow> Inr (?h1[length h := d]))"
    using assms by (intro store_del_tombstones_eq) simp_all
  then show ?thesis
    using u by (simp add: store_merge_def merged_payload_def Let_def split: sum.splits)
qed

text \<open>
  C9. Merging the empty update map into a payload returns that very payload: the
  same entries in the same order. On the store, the merge of the objects at two
  addresses (which may be the same address) allocates its result at a new address
  and leaves every object that was in the store before, the base and the update
  among them, as it was; the new object holds the merged payload, which for an
  empty update is the base's content.
\<close>

theorem merge_empty_update_identity:
  "merged_payload base dict_empty = Inr base \<and>
   (base_addr < length h \<and> upd_addr < length h \<longrightarrow>
      (\<exists>p. store_merge h base_addr upd_addr = Inr (length h, h @ [p]) \<and>
           merged_payload (h ! base_addr) (h ! upd_addr) = Inr p \<and>
           (\<forall>a < length h. (h @ [p]) ! a = h ! a) \<and>
           (h ! upd_addr = dict_empty \<longrightarrow> p = h ! base_addr)))"
proof (intro conjI impI)
  show "merged_payload base dict_empty = Inr base" by (rule merged_payload_empty)
next
  assume a: "base_addr < length h \<and> upd_addr < length h"
  from merged_payload_total [of "h ! base_addr" "h ! upd_addr"] obtain p where
    p: "merged_payload (h ! base_addr) (h ! upd_addr) = Inr p" by blast
  have 1: "store_merge h base_addr upd_addr = Inr (length h, h @ [p])"
    using a p by (simp add: store_merge_eq)
  have 2: "\<forall>a < length h. (h @ [p]) ! a = h ! a" by (simp add: nth_append)
  have 3: "h ! upd_addr = dict_empty \<longrightarrow> p = h ! base_addr"
    using p by (auto simp: merged_payload_empty)
  from 1 2 3 p
  show "\<exists>p. store_merge h base_addr upd_addr = Inr (length h, h @ [p]) \<and>
           merged_payload (h ! base_addr) (h ! upd_addr) = Inr p \<and>
           (\<forall>a < length h. (h @ [p]) ! a = h ! a) \<and>
           (h ! upd_addr = dict_empty \<longrightarrow> p = h ! base_addr)"
    by blast
qed

theorem merge_empty_update_identity_witness:
  "store_merge [access_token_payload sample_session, dict_empty] 0 1 =
     Inr (2, [access_token_payload sample_session, dict_empty,
              access_token_payload sample_session])"
  using merge_empty_update_identity
    [of "access_token_payload sample_session" 0
        "[access_token_payload sample_session, dict_empty]" 1]
  by auto

section \<open>json.dumps is injective\<close>

text \<open>
  Two values with the same serialisation are the same value: same entries, same
  values, and the same order of keys in every mapping.
\<close>

lemma small_cases: "n < (10::nat) \<Longrightarrow> n \<in> {0,1,2,3,4,5,6,7,8,9}"
  by auto

lemma hex_digit_is_digit: "n < 10 \<Longrightarrow> is_digit (hex_digit n)"
  by (drule small_cases) (auto simp: hex_digit_def is_digit_def)

lemma digit_val_hex: "n < 10 \<Longrightarrow> digit_val (hex_digit n) = n"
  by (drule small_cases) (auto simp: hex_digit_def digit_val_def)

lemma read_dumps_nat: "read_nat (dumps_nat n) = n"
proof (induction n rule: dumps_nat.induct)
  case (1 n)
  show ?case
  proof (cases "n < 10")
    case True
    then show ?thesis by (subst dumps_nat.simps) (simp add: read_nat_def digit_val_hex)
  next
    case False
    with 1 have "read_nat (dumps_nat (n div 10)) = n div 10" by simp
    with False show ?thesis
      by (subst dumps_nat.simps) (simp add: read_nat_def digit_val_hex)
  qed
qed

lemma dumps_nat_inj: "dumps_nat n = dumps_nat m \<Longrightarrow> n = m"
  by (metis read_dumps_nat)

lemma dumps_nat_digits: "\<forall>c \<in> set (dumps_nat n). is_digit c"
proof (induction n rule: dumps_nat.induct)
  case (1 n)
  show ?case
  proof (cases "n < 10")
    case True
    then show ?thesis by (subst dumps_nat.simps) (simp add: hex_digit_is_digit)
  next
    case False
    with 1 show ?thesis
      by (subst dumps_nat.simps) (simp add: hex_digit_is_digit)
  qed
qed

lemma dumps_nat_nonempty: "dumps_nat n \<noteq> []"
  by (subst dumps_nat.simps) simp

lemma takeWhile_digits:
  "\<forall>c \<in> set ds. is_digit c \<Longrightarrow> follow_ok r \<Longrightarrow> takeWhile is_digit (ds @ r) = ds"
proof -
  assume d: "\<forall>c \<in> set ds. is_digit c" and f: "follow_ok r"
  have "takeWhile is_digit r = []"
  proof (cases r)
    case Nil
    then show ?thesis by simp
  next
    case (Cons c cs)
    with f show ?thesis by (simp add: follow_ok_def)
  qed
  with d show ?thesis by (simp add: takeWhile_append2)
qed

lemma dumps_nat_prefix:
  assumes "dumps_nat n @ r = dumps_nat m @ r'" and "follow_ok r" and "follow_ok r'"
  shows "n = m \<and> r = r'"
proof -
  have "takeWhile is_digit (dumps_nat n @ r) = dumps_nat n"
    by (rule takeWhile_digits [OF dumps_nat_digits assms(2)])
  moreover have "takeWhile is_digit (dumps_nat m @ r') = dumps_nat m"
    by (rule takeWhile_digits [OF dumps_nat_digits assms(3)])
  ultimately have "dumps_nat n = dumps_nat m" using assms(1) by simp
  with assms(1) show ?thesis by (auto dest: dumps_nat_inj)
qed

lemma dumps_nat_hd: "is_digit (hd (dumps_nat n))"
  using dumps_nat_digits [of n] dumps_nat_nonempty [of n] by (cases "dumps_nat n") auto

lemma dumps_int_prefix:
  assumes "dumps_int i @ r = dumps_int j @ r'" and "follow_ok r" and "follow_ok r'"
  shows "i = j \<and> r = r'"
proof -
  have nd: "\<not> is_digit CHR ''-''" by (simp add: is_digit_def)
  have hd_eq: "hd (dumps_nat a @ x) = hd (dumps_nat a)" for a x
    using dumps_nat_nonempty [of a] by simp
  show ?thesis
  proof (cases "i < 0"; cases "j < 0")
    assume "i < 0" "j < 0"
    with assms dumps_nat_prefix [of "nat (- i)" r "nat (- j)" r'] show ?thesis
      by (auto simp: dumps_int_def)
  next
    assume a: "i < 0" "\<not> j < 0"
    from assms(1) have "hd (dumps_int i @ r) = hd (dumps_int j @ r')" by simp
    with a have "CHR ''-'' = hd (dumps_nat (nat j) @ r')"
      by (simp add: dumps_int_def)
    with nd dumps_nat_hd [of "nat j"] hd_eq show ?thesis by metis
  next
    assume a: "\<not> i < 0" "j < 0"
    from assms(1) have "hd (dumps_int i @ r) = hd (dumps_int j @ r')" by simp
    with a have "CHR ''-'' = hd (dumps_nat (nat i) @ r)"
      by (simp add: dumps_int_def)
    with nd dumps_nat_hd [of "nat i"] hd_eq show ?thesis by metis
  next
    assume "\<not> i < 0" "\<not> j < 0"
    with assms dumps_nat_prefix [of "nat i" r "nat j" r'] show ?thesis
      by (auto simp: dumps_int_def)
  qed
qed

lemma hex_cases: "n < (16::nat) \<Longrightarrow> n \<in> {0,1,2,3,4,5,6,7,8,9,10,11,12,13,14,15}"
  by simp arith

lemma hex_val_digit_aux: "n < 16 \<Longrightarrow> hex_val (''0123456789abcdef'' ! n) = n"
  by (drule hex_cases) (auto simp: hex_val_def is_digit_def)

lemma hex_val_digit: "hex_val (hex_digit n) = n mod 16"
  by (simp add: hex_digit_def hex_val_digit_aux)

lemma hex_digit_eq: "hex_digit a = hex_digit b \<Longrightarrow> a mod 16 = b mod 16"
  by (metis hex_val_digit)

lemma unicode_inj:
  assumes "hex_digit (of_char c div 16) = hex_digit (of_char c' div 16)"
    and "hex_digit (of_char c) = hex_digit (of_char c')"
  shows "c = c'"
proof -
  let ?a = "of_char c :: nat" and ?b = "of_char c' :: nat"
  have la: "?a < 256" and lb: "?b < 256" by (simp_all add: of_char_def)
  from hex_digit_eq [OF assms(1)] la lb have 1: "?a div 16 = ?b div 16" by simp
  from hex_digit_eq [OF assms(2)] have 2: "?a mod 16 = ?b mod 16" .
  have "?a = 16 * (?a div 16) + ?a mod 16" by simp
  also have "\<dots> = 16 * (?b div 16) + ?b mod 16" using 1 2 by simp
  also have "\<dots> = ?b" by simp
  finally show ?thesis by simp
qed

lemma escape_char_prefix:
  "escape_char c @ x = escape_char c' @ y \<Longrightarrow> c = c' \<and> x = y"
  by (auto simp: escape_char_def split: if_splits dest: unicode_inj)

lemma escape_char_hd: "\<exists>a as. escape_char c = a # as \<and> a \<noteq> CHR 0x22"
  by (auto simp: escape_char_def)

lemma escaped_prefix:
  "concat (map escape_char s) @ CHR 0x22 # r = concat (map escape_char s') @ CHR 0x22 # r' \<Longrightarrow>
   s = s' \<and> r = r'"
proof (induction s arbitrary: s')
  case Nil
  show ?case
  proof (cases s')
    case Nil
    with Nil.prems show ?thesis by simp
  next
    case (Cons c cs)
    from escape_char_hd [of c] obtain a as where "escape_char c = a # as" "a \<noteq> CHR 0x22"
      by blast
    with Nil.prems Cons show ?thesis by simp
  qed
next
  case (Cons c cs)
  show ?case
  proof (cases s')
    case Nil
    from escape_char_hd [of c] obtain a as where "escape_char c = a # as" "a \<noteq> CHR 0x22"
      by blast
    with Cons.prems Nil show ?thesis by simp
  next
    case (Cons c' cs')
    with Cons.prems have
      "escape_char c @ (concat (map escape_char cs) @ CHR 0x22 # r) =
       escape_char c' @ (concat (map escape_char cs') @ CHR 0x22 # r')"
      by simp
    from escape_char_prefix [OF this] Cons.IH [of cs'] Cons show ?thesis by simp
  qed
qed

lemma dumps_str_prefix:
  "dumps_str s @ r = dumps_str s' @ r' \<Longrightarrow> s = s' \<and> r = r'"
  by (rule escaped_prefix) (simp add: dumps_str_def)

lemma join_Cons:
  "join sep (x # xs) = x @ (if xs = [] then [] else sep @ join sep xs)"
  by (cases xs) simp_all

lemma join_after: "join '', '' (e # es) @ cl # r = e @ after_elem cl es r"
  by (simp add: join_Cons after_elem_def)

lemma follow_ok_after: "\<not> is_digit cl \<Longrightarrow> follow_ok (after_elem cl es r)"
  by (simp add: after_elem_def follow_ok_def is_digit_def)

lemma seq_prefix:
  assumes elems: "\<And>x y t t'. x \<in> set xs \<Longrightarrow> follow_ok t \<Longrightarrow> follow_ok t' \<Longrightarrow>
            e x @ t = e y @ t' \<Longrightarrow> x = y \<and> t = t'"
    and hd_e: "\<And>y. \<exists>a as. e y = a # as \<and> a \<noteq> cl"
    and cl: "\<not> is_digit cl" "cl \<noteq> CHR '',''"
    and eq: "join '', '' (map e xs) @ cl # r = join '', '' (map e ys) @ cl # r'"
  shows "xs = ys \<and> r = r'"
  using elems eq
proof (induction xs arbitrary: ys)
  case Nil
  show ?case
  proof (cases ys)
    case Nil
    with Nil.prems show ?thesis by simp
  next
    case (Cons y ys')
    from hd_e [of y] obtain a as where "e y = a # as" "a \<noteq> cl" by blast
    with Nil.prems(2) Cons show ?thesis by (simp add: join_Cons)
  qed
next
  case (Cons x xs')
  show ?case
  proof (cases ys)
    case Nil
    from hd_e [of x] obtain a as where "e x = a # as" "a \<noteq> cl" by blast
    with Cons.prems(2) Nil show ?thesis by (simp add: join_Cons)
  next
    case c: (Cons y ys')
    from Cons.prems(2) c have
      "e x @ after_elem cl (map e xs') r = e y @ after_elem cl (map e ys') r'"
      by (simp add: join_after del: join.simps)
    from Cons.prems(1) [OF _ follow_ok_after [OF cl(1)] follow_ok_after [OF cl(1)] this]
    have xy: "x = y" and rest: "after_elem cl (map e xs') r = after_elem cl (map e ys') r'"
      by simp_all
    have "xs' = ys' \<and> r = r'"
    proof (cases "xs' = []"; cases "ys' = []")
      assume "xs' = []" "ys' = []"
      with rest show ?thesis by (simp add: after_elem_def)
    next
      assume "xs' = []" "ys' \<noteq> []"
      with rest cl(2) show ?thesis by (simp add: after_elem_def)
    next
      assume "xs' \<noteq> []" "ys' = []"
      with rest cl(2) show ?thesis by (simp add: after_elem_def)
    next
      assume "xs' \<noteq> []" "ys' \<noteq> []"
      with rest have j: "join '', '' (map e xs') @ cl # r = join '', '' (map e ys') @ cl # r'"
        by (simp add: after_elem_def)
      have el: "z \<in> set xs' \<Longrightarrow> follow_ok t \<Longrightarrow> follow_ok t' \<Longrightarrow>
            e z @ t = e w @ t' \<Longrightarrow> z = w \<and> t = t'" for z w t t'
      proof -
        assume "z \<in> set xs'" and f: "follow_ok t" "follow_ok t'" and q: "e z @ t = e w @ t'"
        then have "z \<in> set (x # xs')" by simp
        from Cons.prems(1) [OF this f q] show ?thesis .
      qed
      from Cons.IH [OF el j] show ?thesis .
    qed
    with xy c show ?thesis by blast
  qed
qed

lemma dumps_int_hd: "\<exists>a as. dumps_int i = a # as \<and> (is_digit a \<or> a = CHR ''-'')"
proof (cases "i < 0")
  case True
  then show ?thesis by (simp add: dumps_int_def)
next
  case False
  obtain a as where d: "dumps_nat (nat i) = a # as"
    using dumps_nat_nonempty [of "nat i"] by (cases "dumps_nat (nat i)") auto
  with dumps_nat_digits [of "nat i"] have "is_digit a" by simp
  with d False show ?thesis by (simp add: dumps_int_def)
qed

lemma json_dumps_hd: "\<exists>a as. json_dumps v = a # as \<and> a \<in> first_chars v"
proof (cases v)
  case (JInt i)
  with dumps_int_hd [of i] show ?thesis by (auto simp: is_digit_def)
qed (auto simp: dumps_str_def)

lemma json_dumps_hd_not_close: "\<exists>a as. json_dumps v = a # as \<and> a \<noteq> CHR '']''"
  using json_dumps_hd [of v] by (cases v) auto

lemma same_constructor:
  assumes "json_dumps a @ r = json_dumps b @ r'"
  shows "first_chars a \<inter> first_chars b \<noteq> {}"
proof -
  from json_dumps_hd [of a] obtain x xs where a: "json_dumps a = x # xs" "x \<in> first_chars a"
    by blast
  from json_dumps_hd [of b] obtain y ys where b: "json_dumps b = y # ys" "y \<in> first_chars b"
    by blast
  from assms a b have "x = y" by simp
  with a b show ?thesis by blast
qed

lemma json_dumps_prefix:
  "follow_ok r \<Longrightarrow> follow_ok r' \<Longrightarrow> json_dumps a @ r = json_dumps b @ r' \<Longrightarrow>
   a = b \<and> r = r'"
proof (induction a arbitrary: b r r')
  case JNull
  from same_constructor [OF JNull.prems(3)] have "b = JNull"
    by (cases b) (auto split: if_splits)
  with JNull.prems show ?case by simp
next
  case (JBool x)
  from same_constructor [OF JBool.prems(3)] have "b = JBool x"
    by (cases b) (auto split: if_splits)
  with JBool.prems show ?case by simp
next
  case (JInt i)
  from same_constructor [OF JInt.prems(3)] obtain j where "b = JInt j"
    by (cases b) (auto split: if_splits)
  with JInt.prems dumps_int_prefix [of i r j r'] show ?case by simp
next
  case (JStr s)
  from same_constructor [OF JStr.prems(3)] obtain s' where "b = JStr s'"
    by (cases b) (auto split: if_splits)
  with JStr.prems dumps_str_prefix [of s r s' r'] show ?case by simp
next
  case (JList xs)
  from same_constructor [OF JList.prems(3)] obtain ys where b: "b = JList ys"
    by (cases b) (auto split: if_splits)
  with JList.prems(3) have eq:
    "join '', '' (map json_dumps xs) @ CHR '']'' # r = join '', '' (map json_dumps ys) @ CHR '']'' # r'"
    by simp
  have "xs = ys \<and> r = r'"
  proof (rule seq_prefix [where e = json_dumps and cl = "CHR '']''", OF _ _ _ _ eq])
    fix x y t t'
    assume "x \<in> set xs" "follow_ok t" "follow_ok t'" "json_dumps x @ t = json_dumps y @ t'"
    then show "x = y \<and> t = t'" by (rule JList.IH)
  next
    fix y show "\<exists>a as. json_dumps y = a # as \<and> a \<noteq> CHR '']''"
      by (rule json_dumps_hd_not_close)
  qed (simp_all add: is_digit_def)
  with b show ?case by simp
next
  case (JObj kvs)
  let ?e = "\<lambda>kv. dumps_str (fst kv) @ '': '' @ json_dumps (snd kv)"
  from same_constructor [OF JObj.prems(3)] obtain kvs' where b: "b = JObj kvs'"
    by (cases b) (auto split: if_splits)
  with JObj.prems(3) have eq:
    "join '', '' (map ?e kvs) @ CHR ''}'' # r = join '', '' (map ?e kvs') @ CHR ''}'' # r'"
    by simp
  have "kvs = kvs' \<and> r = r'"
  proof (rule seq_prefix [where e = ?e and cl = "CHR ''}''", OF _ _ _ _ eq])
    fix x y :: "string \<times> json" and t t'
    assume x: "x \<in> set kvs" and f: "follow_ok t" "follow_ok t'"
      and q: "?e x @ t = ?e y @ t'"
    from q have "dumps_str (fst x) @ ('': '' @ json_dumps (snd x) @ t) =
                 dumps_str (fst y) @ ('': '' @ json_dumps (snd y) @ t')"
      by simp
    from dumps_str_prefix [OF this]
    have k: "fst x = fst y" and v: "json_dumps (snd x) @ t = json_dumps (snd y) @ t'"
      by simp_all
    have "snd x \<in> Basic_BNFs.snds x" by (cases x) simp
    from JObj.IH [OF x this f v] k show "x = y \<and> t = t'"
      by (simp add: prod_eq_iff)
  next
    fix y :: "string \<times> json"
    show "\<exists>a as. ?e y = a # as \<and> a \<noteq> CHR ''}''"
      by (simp add: dumps_str_def)
  qed (simp_all add: is_digit_def)
  with b show ?case by simp
qed

lemma json_dumps_inj: "json_dumps a = json_dumps b \<longleftrightarrow> a = b"
  using json_dumps_prefix [of "[]" "[]" a b] by (auto simp: follow_ok_def)

lemma dumps_dict_inj: "dumps_dict p = dumps_dict q \<longleftrightarrow> p = q"
  by (simp only: dumps_dict_def json_dumps_inj json.inject items_inject)

section \<open>The validation loop\<close>

lemma validate_loop_append:
  "validate_loop uid uc (xs @ ys) p errs =
     (case validate_loop uid uc xs p errs of
        Inl e \<Rightarrow> Inl e
      | Inr (w, es) \<Rightarrow> validate_loop uid uc ys w es)"
  by (induction xs arbitrary: p errs) (auto simp: Let_def split: sum.splits)

lemma validate_loop_payload:
  "validate_loop uid uc vs p errs = Inr (w, es) \<Longrightarrow> w = fold (refetch uid uc) vs p"
  by (induction vs arbitrary: p errs) (auto simp: Let_def split: sum.splits if_splits)

lemma working_after_0 [simp]: "working_after uid uc vs p 0 = p"
  by (simp add: working_after_def)

lemma working_after_Cons [simp]:
  "working_after uid uc (v # vs) p (Suc i) = working_after uid uc vs (refetch uid uc v p) i"
  by (simp add: working_after_def)

lemma working_after_Suc:
  "i < length vs \<Longrightarrow>
   working_after uid uc vs p (Suc i) = refetch uid uc (vs ! i) (working_after uid uc vs p i)"
  by (simp add: working_after_def take_Suc_conv_app_nth)

lemma working_after_all: "working_after uid uc vs p (length vs) = fold (refetch uid uc) vs p"
  by (simp add: working_after_def)

lemma concat_map_upt_Suc:
  "concat (map g [0..<Suc n]) = g 0 @ concat (map (\<lambda>i. g (Suc i)) [0..<n])"
proof -
  have "[0..<Suc n] = 0 # map Suc [0..<n]"
    by (simp add: upt_conv_Cons map_Suc_upt del: upt_Suc)
  then show ?thesis by (simp add: comp_def del: upt_Suc)
qed

lemma validate_loop_errors:
  "validate_loop uid uc vs p errs = Inr (w, es) \<Longrightarrow>
   es = errs @ concat (map (\<lambda>i. failure_of (vs ! i) (working_after uid uc vs p (Suc i)) uc)
                        [0..<length vs])"
proof (induction vs arbitrary: p errs)
  case Nil
  then show ?case by simp
next
  case (Cons v vs)
  let ?p1 = "refetch uid uc v p"
  let ?res = "validate v ?p1 uc"
  let ?tail = "concat (map (\<lambda>i. failure_of (vs ! i) (working_after uid uc vs ?p1 (Suc i)) uc)
                        [0..<length vs])"
  have split: "concat (map (\<lambda>i. failure_of ((v # vs) ! i)
                               (working_after uid uc (v # vs) p (Suc i)) uc)
                      [0..<length (v # vs)]) = failure_of v ?p1 uc @ ?tail"
    by (simp add: concat_map_upt_Suc del: upt_Suc)
  show ?case
  proof (cases "truthy (dict_get ?res ''isValid'')")
    case True
    with Cons.prems have "validate_loop uid uc vs ?p1 errs = Inr (w, es)"
      by (simp add: Let_def)
    from Cons.IH [OF this] True show ?thesis
      unfolding split by (simp add: failure_of_def)
  next
    case False
    with Cons.prems obtain r where r: "dict_get ?res ''reason'' = Some r"
      and l: "validate_loop uid uc vs ?p1 (errs @ [ClaimValidationError (vid v) r]) = Inr (w, es)"
      by (auto simp: Let_def py_getitem_def split: option.splits)
    from Cons.IH [OF l] False r show ?thesis
      unfolding split by (simp add: failure_of_def)
  qed
qed

lemma validate_loop_reasons:
  "validate_loop uid uc vs p errs = Inr (w, es) \<Longrightarrow> i < length vs \<Longrightarrow>
   \<not> truthy (dict_get (validate (vs ! i) (working_after uid uc vs p (Suc i)) uc) ''isValid'') \<Longrightarrow>
   \<exists>r. dict_get (validate (vs ! i) (working_after uid uc vs p (Suc i)) uc) ''reason'' = Some r"
proof (induction vs arbitrary: p errs i)
  case Nil
  then show ?case by simp
next
  case (Cons v vs)
  show ?case
  proof (cases i)
    case 0
    with Cons.prems show ?thesis
      by (auto simp: Let_def py_getitem_def split: option.splits if_splits)
  next
    case (Suc j)
    from Cons.prems(1) obtain errs' where
      "validate_loop uid uc vs (refetch uid uc v p) errs' = Inr (w, es)"
      by (auto simp: Let_def split: if_splits sum.splits)
    from Cons.IH [OF this, of j] Cons.prems Suc show ?thesis by simp
  qed
qed

lemma validate_loop_no_refetch:
  "\<forall>v \<in> set vs. refetch uid uc v p = p \<Longrightarrow>
   validate_loop uid uc vs p errs = Inr (w, es) \<Longrightarrow> w = p"
  by (induction vs arbitrary: errs) (auto simp: Let_def split: if_splits sum.splits)

lemma validate_loop_error:
  "validate_loop uid uc vs p errs = Inl e \<Longrightarrow> e = KeyError ''reason''"
  by (induction vs arbitrary: p errs)
     (auto simp: Let_def py_getitem_def split: if_splits sum.splits option.splits)

lemma assert_claims_calls:
  "gateway_calls (assert_claims gw vs uc s) =
     (case validate_loop (user_id s) uc vs (access_token_payload s) [] of
        Inl e \<Rightarrow> []
      | Inr (w, errs) \<Rightarrow>
          if dumps_dict w \<noteq> dumps_dict (access_token_payload s)
          then gateway_calls (merge_into_access_token_payload gw w uc s) else [])"
  by (simp add: assert_claims_def Let_def split: sum.splits prod.splits)

lemma assert_claims_session:
  "session_after (assert_claims gw vs uc s) =
     (case validate_loop (user_id s) uc vs (access_token_payload s) [] of
        Inl e \<Rightarrow> s
      | Inr (w, errs) \<Rightarrow>
          if dumps_dict w \<noteq> dumps_dict (access_token_payload s)
          then session_after (merge_into_access_token_payload gw w uc s) else s)"
  by (simp add: assert_claims_def Let_def split: sum.splits prod.splits)

lemma assert_claims_result:
  "result (assert_claims gw vs uc s) =
     (case validate_loop (user_id s) uc vs (access_token_payload s) [] of
        Inl e \<Rightarrow> Inl e
      | Inr (w, errs) \<Rightarrow>
          (case (if dumps_dict w \<noteq> dumps_dict (access_token_payload s)
                 then result (merge_into_access_token_payload gw w uc s) else Inr ()) of
             Inl e \<Rightarrow> Inl e
           | Inr u \<Rightarrow> if errs \<noteq> [] then Inl (InvalidClaimsError ''INVALID_CLAIMS'' errs)
                      else Inr ()))"
  by (simp add: assert_claims_def Let_def split: sum.splits prod.splits)

lemma assert_claims_invalid:
  assumes "result (assert_claims gw vs uc s) = Inl (InvalidClaimsError m es)"
  shows "\<exists>w. validate_loop (user_id s) uc vs (access_token_payload s) [] = Inr (w, es) \<and>
             es \<noteq> [] \<and> m = ''INVALID_CLAIMS''"
proof (cases "validate_loop (user_id s) uc vs (access_token_payload s) []")
  case (Inl e)
  with assms validate_loop_error [OF Inl] show ?thesis
    by (simp add: assert_claims_result)
next
  case (Inr r)
  obtain w errs where r: "r = (w, errs)" by (cases r)
  show ?thesis
  proof (cases "dumps_dict w \<noteq> dumps_dict (access_token_payload s)")
    case False
    with assms Inr r show ?thesis
      by (auto simp: assert_claims_result split: if_splits)
  next
    case True
    show ?thesis
    proof (cases "result (merge_into_access_token_payload gw w uc s)")
      case (Inl e)
      from merge_into_result [OF Inl] Inl assms Inr r True show ?thesis
        by (simp add: assert_claims_result)
    next
      case (Inr u)
      with assms \<open>validate_loop (user_id s) uc vs (access_token_payload s) [] = Inr r\<close> r True
      show ?thesis
        by (auto simp: assert_claims_result split: if_splits)
    qed
  qed
qed

lemma sample_loop_admin_mfa:
  "validate_loop (user_id sample_session) None [admin_validator, failing_validator]
     (access_token_payload sample_session) [] =
   Inr (dict_literal [(''role'', JStr ''admin''), (''sub'', JStr ''u1'')],
        [ClaimValidationError ''mfa'' (JStr ''no second factor'')])"
  by (simp add: run_eval pydict_eq_iff)

lemma sample_dumps_differ:
  "dumps_dict (dict_literal [(''role'', JStr ''admin''), (''sub'', JStr ''u1'')]) \<noteq>
   dumps_dict (access_token_payload sample_session)"
  by (simp add: run_eval dumps_eval)

lemma sample_payload_differs:
  "dict_literal [(''role'', JStr ''admin''), (''sub'', JStr ''u1'')] \<noteq>
   access_token_payload sample_session"
  by (simp add: run_eval pydict_eq_iff)

lemma sample_merged_admin:
  "merged_payload (access_token_payload sample_session)
     (dict_literal [(''role'', JStr ''admin''), (''sub'', JStr ''u1'')]) =
   Inr (dict_literal [(''role'', JStr ''admin''), (''sub'', JStr ''u1'')])"
  by (simp add: run_eval pydict_eq_iff)

lemma sample_loop_admin:
  "validate_loop (user_id sample_session) None [admin_validator]
     (access_token_payload sample_session) [] =
   Inr (dict_literal [(''role'', JStr ''admin''), (''sub'', JStr ''u1'')], [])"
  by (simp add: run_eval pydict_eq_iff)

section \<open>Commit before report\<close>

text \<open>
  C1. Whenever the loop over the validators ends with a working payload that
  differs from the payload at entry (in an entry, or in the order of its keys, so
  that its serialisation differs from the snapshot) and with at least one
  validation error, \<open>assert_claims\<close> calls \<open>merge_into_access_token_payload\<close>
  before it reports: the gateway receives exactly one call, with the session's
  payload merged with the working payload, in which every non-null entry of the
  working payload is present. If the gateway accepts, the call fails with
  \<open>InvalidClaimsError\<close> carrying the errors, and the session's payload is the one
  the gateway returned: the refreshed values are persisted although the call
  fails. If the gateway reports the session gone, the failure is
  \<open>UnauthorisedError\<close> instead.
\<close>

theorem commit_before_report:
  assumes "validate_loop (user_id s) uc vs (access_token_payload s) [] = Inr (w, errs)"
    and "w \<noteq> access_token_payload s"
    and "errs \<noteq> []"
  shows "\<exists>p. merged_payload (access_token_payload s) w = Inr p \<and>
       (\<forall>k v. dict_get w k = Some v \<and> v \<noteq> JNull \<longrightarrow> dict_get p k = Some v) \<and>
       gateway_calls (assert_claims gw vs uc s) =
         [\<lparr>call_token = access_token s, call_payload = p,
           call_context = default_context uc\<rparr>] \<and>
       (\<forall>r. gw (access_token s) p (default_context uc) = Some r \<longrightarrow>
          result (assert_claims gw vs uc s) = Inl (InvalidClaimsError ''INVALID_CLAIMS'' errs) \<and>
          access_token_payload (session_after (assert_claims gw vs uc s)) = user_data_in_jwt r) \<and>
       (gw (access_token s) p (default_context uc) = None \<longrightarrow>
          result (assert_claims gw vs uc s) =
            Inl (UnauthorisedError ''Session does not exist anymore.''))"
proof -
  from merge_into_unfold [of s w gw uc] obtain p where
    p: "merged_payload (access_token_payload s) w = Inr p"
    and m: "merge_into_access_token_payload gw w uc s = update_access_token_payload gw p uc s"
    and g: "\<forall>k. dict_get p k =
          (case dict_get w k of
             None \<Rightarrow> dict_get (access_token_payload s) k
           | Some v \<Rightarrow> if v = JNull then None else Some v)"
    by blast
  have d: "dumps_dict w \<noteq> dumps_dict (access_token_payload s)"
    using assms(2) by (simp add: dumps_dict_inj)
  have 1: "\<forall>k v. dict_get w k = Some v \<and> v \<noteq> JNull \<longrightarrow> dict_get p k = Some v"
    using g by simp
  have 2: "gateway_calls (assert_claims gw vs uc s) =
         [\<lparr>call_token = access_token s, call_payload = p,
           call_context = default_context uc\<rparr>]"
    using assms(1) d m by (simp add: assert_claims_calls update_calls)
  have 3: "result (assert_claims gw vs uc s) = Inl (InvalidClaimsError ''INVALID_CLAIMS'' errs) \<and>
          access_token_payload (session_after (assert_claims gw vs uc s)) = user_data_in_jwt r"
    if r: "gw (access_token s) p (default_context uc) = Some r" for r
    using assms(1,3) d m update_ok [of gw s p uc r, OF r]
    by (simp add: assert_claims_result assert_claims_session split: option.splits)
  have 4: "result (assert_claims gw vs uc s) =
            Inl (UnauthorisedError ''Session does not exist anymore.'')"
    if n: "gw (access_token s) p (default_context uc) = None"
    using assms(1) d m update_gone [of gw s p uc, OF n]
    by (simp add: assert_claims_result)
  show ?thesis
    apply (rule exI [of _ p])
    using p 1 2 3 4 apply simp
    done
qed

theorem commit_before_report_witness:
  "result (assert_claims echo_gateway [admin_validator, failing_validator] None sample_session) =
     Inl (InvalidClaimsError ''INVALID_CLAIMS''
            [ClaimValidationError ''mfa'' (JStr ''no second factor'')]) \<and>
   access_token_payload (session_after
       (assert_claims echo_gateway [admin_validator, failing_validator] None sample_session)) =
     dict_literal [(''role'', JStr ''admin''), (''sub'', JStr ''u1'')]"
  using commit_before_report [OF sample_loop_admin_mfa sample_payload_differs, of echo_gateway]
  by (simp add: sample_merged_admin) (simp add: echo_gateway_def)

section \<open>When the payload counts as changed\<close>

text \<open>
  C2, as the code has it. \<open>assert_claims\<close> calls
  \<open>merge_into_access_token_payload\<close>, and so the gateway, if and only if the loop
  over the validators completes and the \<^verbatim>\<open>json.dumps\<close> serialisation of the final
  working payload differs from the serialisation taken at entry. The serialisation
  lists the keys in the dictionary's own order and loses nothing, so the two differ
  exactly when the payloads differ as lists of entries: in a key, in a value, or
  in the order of the keys.
\<close>

theorem merge_iff_serialisation_differs:
  "(gateway_calls (assert_claims gw vs uc s) \<noteq> [] \<longleftrightarrow>
     (\<exists>w errs. validate_loop (user_id s) uc vs (access_token_payload s) [] = Inr (w, errs) \<and>
              dumps_dict w \<noteq> dumps_dict (access_token_payload s))) \<and>
   (gateway_calls (assert_claims gw vs uc s) \<noteq> [] \<longleftrightarrow>
     (\<exists>w errs. validate_loop (user_id s) uc vs (access_token_payload s) [] = Inr (w, errs) \<and>
              items w \<noteq> items (access_token_payload s)))"
proof (cases "validate_loop (user_id s) uc vs (access_token_payload s) []")
  case (Inl e)
  then show ?thesis by (simp add: assert_claims_calls)
next
  case (Inr r)
  obtain w errs where r: "r = (w, errs)" by (cases r)
  from merge_into_calls [of s w gw uc]
  have "gateway_calls (merge_into_access_token_payload gw w uc s) \<noteq> []" by auto
  with Inr r show ?thesis
    by (simp add: assert_claims_calls dumps_dict_inj pydict_eq_iff [symmetric])
qed

theorem merge_iff_serialisation_differs_witness:
  "gateway_calls (assert_claims echo_gateway [admin_validator, failing_validator] None
     sample_session) \<noteq> []"
  using merge_iff_serialisation_differs
    [of echo_gateway "[admin_validator, failing_validator]" None sample_session,
     THEN conjunct1]
    sample_loop_admin_mfa sample_dumps_differ
  by simp

text \<open>
  C2, as worded with a key-order-insensitive equality, fails: for the sample
  session and a claim that re-inserts its key at the end of the dictionary, the
  final working payload is deep-structurally equal to the payload at entry (same
  keys, same values, other key order), and yet the merge is called and the gateway
  receives a payload.
\<close>

theorem changed_test_key_order_counterexample:
  "validate_loop (user_id sample_session) None [moving_validator]
     (access_token_payload sample_session) [] =
     Inr (dict_literal [(''sub'', JStr ''u1''), (''role'', JStr ''user'')], []) \<and>
   payload_deep_equal (dict_literal [(''sub'', JStr ''u1''), (''role'', JStr ''user'')])
     (access_token_payload sample_session) \<and>
   gateway_calls (assert_claims echo_gateway [moving_validator] None sample_session) =
     [\<lparr>call_token = ''t0'',
       call_payload = dict_literal [(''role'', JStr ''user''), (''sub'', JStr ''u1'')],
       call_context = dict_empty\<rparr>]"
proof (intro conjI)
  show l: "validate_loop (user_id sample_session) None [moving_validator]
     (access_token_payload sample_session) [] =
     Inr (dict_literal [(''sub'', JStr ''u1''), (''role'', JStr ''user'')], [])"
    by (simp add: run_eval pydict_eq_iff)
  show "payload_deep_equal (dict_literal [(''sub'', JStr ''u1''), (''role'', JStr ''user'')])
     (access_token_payload sample_session)"
    by (auto simp: payload_deep_equal_def run_eval)
  have d: "dumps_dict (dict_literal [(''sub'', JStr ''u1''), (''role'', JStr ''user'')]) \<noteq>
        dumps_dict (access_token_payload sample_session)"
    by (simp add: run_eval dumps_eval)
  have m: "merged_payload (access_token_payload sample_session)
        (dict_literal [(''sub'', JStr ''u1''), (''role'', JStr ''user'')]) =
      Inr (dict_literal [(''role'', JStr ''user''), (''sub'', JStr ''u1'')])"
    by (simp add: run_eval pydict_eq_iff)
  show "gateway_calls (assert_claims echo_gateway [moving_validator] None sample_session) =
     [\<lparr>call_token = ''t0'',
       call_payload = dict_literal [(''role'', JStr ''user''), (''sub'', JStr ''u1'')],
       call_context = dict_empty\<rparr>]"
    using l d m
    by (simp add: assert_claims_calls merge_into_access_token_payload_def update_calls)
       (simp add: sample_session_def default_context_def)
qed

section \<open>Validators run in list order\<close>

text \<open>
  C4. The working payload that validator \<open>i\<close> starts from is the one left by the
  refetches of validators \<open>0, ..., i - 1\<close>: its \<open>should_refetch\<close> is asked about
  that payload, and its \<open>validate\<close> about the payload after its own refetch. When
  the loop completes, the final payload is the one after all validators, and the
  error list is, in list order, one entry for each validator whose result is not
  valid, made of that validator's id and the reason it gave, and nothing for the
  others. An \<open>InvalidClaimsError\<close> raised by \<open>assert_claims\<close> carries exactly this
  list, which is then not empty.
\<close>

theorem validators_in_list_order:
  "(\<forall>i < length vs.
      working_after (user_id s) uc vs (access_token_payload s) (Suc i) =
        refetch (user_id s) uc (vs ! i)
          (working_after (user_id s) uc vs (access_token_payload s) i)) \<and>
   (\<forall>w errs. validate_loop (user_id s) uc vs (access_token_payload s) [] = Inr (w, errs) \<longrightarrow>
      w = working_after (user_id s) uc vs (access_token_payload s) (length vs) \<and>
      errs = concat (map (\<lambda>i. failure_of (vs ! i)
                (working_after (user_id s) uc vs (access_token_payload s) (Suc i)) uc)
              [0..<length vs]) \<and>
      (\<forall>i < length vs.
         \<not> truthy (dict_get (validate (vs ! i)
              (working_after (user_id s) uc vs (access_token_payload s) (Suc i)) uc) ''isValid'')
         \<longrightarrow> (\<exists>r. failure_of (vs ! i)
                (working_after (user_id s) uc vs (access_token_payload s) (Suc i)) uc =
                  [ClaimValidationError (vid (vs ! i)) r]))) \<and>
   (\<forall>m es. result (assert_claims gw vs uc s) = Inl (InvalidClaimsError m es) \<longrightarrow>
      es \<noteq> [] \<and>
      validate_loop (user_id s) uc vs (access_token_payload s) [] =
        Inr (working_after (user_id s) uc vs (access_token_payload s) (length vs), es))"
proof (intro conjI allI impI)
  fix i assume "i < length vs"
  then show "working_after (user_id s) uc vs (access_token_payload s) (Suc i) =
        refetch (user_id s) uc (vs ! i)
          (working_after (user_id s) uc vs (access_token_payload s) i)"
    by (rule working_after_Suc)
next
  fix w errs
  assume l: "validate_loop (user_id s) uc vs (access_token_payload s) [] = Inr (w, errs)"
  show "w = working_after (user_id s) uc vs (access_token_payload s) (length vs)"
    using validate_loop_payload [OF l] by (simp add: working_after_all)
  show "errs = concat (map (\<lambda>i. failure_of (vs ! i)
                (working_after (user_id s) uc vs (access_token_payload s) (Suc i)) uc)
              [0..<length vs])"
    using validate_loop_errors [OF l] by simp
  fix i
  assume i: "i < length vs"
    and f: "\<not> truthy (dict_get (validate (vs ! i)
              (working_after (user_id s) uc vs (access_token_payload s) (Suc i)) uc) ''isValid'')"
  from validate_loop_reasons [OF l i f] f
  show "\<exists>r. failure_of (vs ! i)
                (working_after (user_id s) uc vs (access_token_payload s) (Suc i)) uc =
                  [ClaimValidationError (vid (vs ! i)) r]"
    by (auto simp: failure_of_def)
next
  fix m es
  assume a: "result (assert_claims gw vs uc s) = Inl (InvalidClaimsError m es)"
  from assert_claims_invalid [OF a] obtain w where
    l: "validate_loop (user_id s) uc vs (access_token_payload s) [] = Inr (w, es)"
    and ne: "es \<noteq> []"
    by blast
  show "es \<noteq> []" by (rule ne)
  show "validate_loop (user_id s) uc vs (access_token_payload s) [] =
        Inr (working_after (user_id s) uc vs (access_token_payload s) (length vs), es)"
    using l validate_loop_payload [OF l] by (simp add: working_after_all)
qed

theorem validators_in_list_order_witness:
  "validate_loop (user_id sample_session) None [admin_validator, failing_validator]
     (access_token_payload sample_session) [] =
   Inr (working_after (user_id sample_session) None [admin_validator, failing_validator]
          (access_token_payload sample_session) 2,
        [ClaimValidationError ''mfa'' (JStr ''no second factor'')])"
proof -
  have r: "result (assert_claims echo_gateway [admin_validator, failing_validator] None
              sample_session) =
     Inl (InvalidClaimsError ''INVALID_CLAIMS''
            [ClaimValidationError ''mfa'' (JStr ''no second factor'')])"
    using sample_loop_admin_mfa sample_dumps_differ sample_merged_admin
    by (simp add: assert_claims_result merge_into_access_token_payload_def
          update_access_token_payload_def echo_gateway_def Let_def)
  have n: "length [admin_validator, failing_validator] = 2" by simp
  from validators_in_list_order
    [of "[admin_validator, failing_validator]" sample_session None echo_gateway,
     THEN conjunct2, THEN conjunct2, rule_format, OF r]
  show ?thesis unfolding n by (rule conjunct2)
qed

section \<open>No spurious commit\<close>

text \<open>
  C7. If no validator of the list triggers a refetch (each has no claim, or its
  \<open>should_refetch\<close> declines on the session's payload), then \<open>assert_claims\<close> makes
  no call on the gateway, so \<open>merge_into_access_token_payload\<close> is never invoked,
  and the session after the call, whether it returns or raises, is the session
  before it: payload, token and token information included.
\<close>

theorem no_spurious_commit:
  assumes "\<forall>v \<in> set vs. claim v = None \<or> \<not> should_refetch v (access_token_payload s) uc"
  shows "gateway_calls (assert_claims gw vs uc s) = [] \<and>
         session_after (assert_claims gw vs uc s) = s"
proof -
  have nr: "\<forall>v \<in> set vs.
      refetch (user_id s) uc v (access_token_payload s) = access_token_payload s"
    using assms by (auto simp: refetch_def split: option.splits)
  show ?thesis
  proof (cases "validate_loop (user_id s) uc vs (access_token_payload s) []")
    case (Inl e)
    then show ?thesis by (simp add: assert_claims_calls assert_claims_session)
  next
    case (Inr r)
    obtain w errs where r: "r = (w, errs)" by (cases r)
    from validate_loop_no_refetch [OF nr] Inr r have "w = access_token_payload s" by simp
    with Inr r show ?thesis by (simp add: assert_claims_calls assert_claims_session)
  qed
qed

theorem no_spurious_commit_witness:
  "gateway_calls (assert_claims reissue_gateway [passing_validator, failing_validator] None
     sample_session) = [] \<and>
   session_after (assert_claims reissue_gateway [passing_validator, failing_validator] None
     sample_session) = sample_session"
  using no_spurious_commit
    [of "[passing_validator, failing_validator]" sample_session None reissue_gateway]
  by (simp add: passing_validator_def failing_validator_def)

section \<open>Removing a claim\<close>

text \<open>
  C8, as the code has it. \<open>remove_claim\<close> makes one call on the gateway, and what
  the gateway receives is the merged payload: the session's payload without the
  keys that the claim's update marks with the tombstone, with the update's other
  entries set and every other key as it was. The tombstones themselves are not
  sent. When the gateway answers, the call succeeds and the session's payload is
  the payload the gateway returned.
\<close>

theorem remove_claim_sends_merged_payload:
  "\<exists>p. gateway_calls (remove_claim gw c uc s) =
         [\<lparr>call_token = access_token s, call_payload = p,
           call_context = default_context uc\<rparr>] \<and>
       (\<forall>k. dict_get p k =
          (case dict_get (remove_from_payload_by_merge c dict_empty (Some (default_context uc))) k of
             None \<Rightarrow> dict_get (access_token_payload s) k
           | Some v \<Rightarrow> if v = JNull then None else Some v)) \<and>
       (\<forall>r. gw (access_token s) p (default_context uc) = Some r \<longrightarrow>
          result (remove_claim gw c uc s) = Inr () \<and>
          access_token_payload (session_after (remove_claim gw c uc s)) = user_data_in_jwt r)"
proof -
  let ?upd = "remove_from_payload_by_merge c dict_empty (Some (default_context uc))"
  let ?uc1 = "Some (default_context uc)"
  have dc: "default_context ?uc1 = default_context uc" by (simp add: default_context_def)
  have rc: "remove_claim gw c uc s = merge_into_access_token_payload gw ?upd ?uc1 s"
    by (simp add: remove_claim_def Let_def)
  from merge_into_unfold [of s ?upd gw ?uc1] obtain p where
    m: "merge_into_access_token_payload gw ?upd ?uc1 s = update_access_token_payload gw p ?uc1 s"
    and g: "\<forall>k. dict_get p k =
          (case dict_get ?upd k of
             None \<Rightarrow> dict_get (access_token_payload s) k
           | Some v \<Rightarrow> if v = JNull then None else Some v)"
    by blast
  have 1: "gateway_calls (remove_claim gw c uc s) =
         [\<lparr>call_token = access_token s, call_payload = p,
           call_context = default_context uc\<rparr>]"
    using rc m dc by (simp add: update_calls)
  have 3: "result (remove_claim gw c uc s) = Inr () \<and>
          access_token_payload (session_after (remove_claim gw c uc s)) = user_data_in_jwt r"
    if r: "gw (access_token s) p (default_context uc) = Some r" for r
  proof -
    from r dc have "gw (access_token s) p (default_context ?uc1) = Some r" by simp
    from update_ok [of gw s p ?uc1 r, OF this] rc m show ?thesis
      by (simp split: option.splits)
  qed
  show ?thesis
    apply (rule exI [of _ p])
    using 1 g 3 apply simp
    done
qed

theorem remove_claim_sends_merged_payload_witness:
  "\<exists>p. gateway_calls (remove_claim echo_gateway role_claim None sample_session) =
         [\<lparr>call_token = ''t0'', call_payload = p, call_context = dict_empty\<rparr>] \<and>
       dict_get p ''role'' = None \<and> dict_get p ''sub'' = Some (JStr ''u1'') \<and>
       access_token_payload (session_after
         (remove_claim echo_gateway role_claim None sample_session)) = p"
proof -
  from remove_claim_sends_merged_payload [of echo_gateway role_claim None sample_session]
  obtain p where
    c: "gateway_calls (remove_claim echo_gateway role_claim None sample_session) =
         [\<lparr>call_token = access_token sample_session, call_payload = p,
           call_context = default_context None\<rparr>]"
    and g: "\<forall>k. dict_get p k =
          (case dict_get (remove_from_payload_by_merge role_claim dict_empty
                            (Some (default_context None))) k of
             None \<Rightarrow> dict_get (access_token_payload sample_session) k
           | Some v \<Rightarrow> if v = JNull then None else Some v)"
    and r: "\<forall>r. echo_gateway (access_token sample_session) p (default_context None) = Some r \<longrightarrow>
          result (remove_claim echo_gateway role_claim None sample_session) = Inr () \<and>
          access_token_payload (session_after
            (remove_claim echo_gateway role_claim None sample_session)) = user_data_in_jwt r"
    by blast
  from g have "dict_get p ''role'' = None" and "dict_get p ''sub'' = Some (JStr ''u1'')"
    by (simp_all add: run_eval)
  moreover from r have "access_token_payload (session_after
         (remove_claim echo_gateway role_claim None sample_session)) = p"
    by (simp add: echo_gateway_def)
  moreover from c have "gateway_calls (remove_claim echo_gateway role_claim None sample_session) =
         [\<lparr>call_token = ''t0'', call_payload = p, call_context = dict_empty\<rparr>]"
    by (simp add: sample_session_def default_context_def)
  ultimately show ?thesis by blast
qed

text \<open>
  C8, as worded, fails: for the sample session and the claim kept under
  \<^verbatim>\<open>role\<close>, the claim's update is \<^verbatim>\<open>{"role": None}\<close>, but the gateway receives
  the payload \<^verbatim>\<open>{"sub": "u1"}\<close>, which is not that update map.
\<close>

theorem remove_claim_gateway_counterexample:
  "remove_from_payload_by_merge role_claim dict_empty (Some dict_empty) =
     dict_literal [(''role'', JNull)] \<and>
   gateway_calls (remove_claim echo_gateway role_claim None sample_session) =
     [\<lparr>call_token = ''t0'', call_payload = dict_literal [(''sub'', JStr ''u1'')],
       call_context = dict_empty\<rparr>] \<and>
   dict_literal [(''sub'', JStr ''u1'')] \<noteq> dict_literal [(''role'', JNull)]"
proof (intro conjI)
  show "remove_from_payload_by_merge role_claim dict_empty (Some dict_empty) =
     dict_literal [(''role'', JNull)]"
    by (simp add: run_eval pydict_eq_iff)
  have m: "merged_payload (access_token_payload sample_session)
        (dict_set ''role'' JNull dict_empty) = Inr (dict_literal [(''sub'', JStr ''u1'')])"
    by (simp add: run_eval pydict_eq_iff)
  show "gateway_calls (remove_claim echo_gateway role_claim None sample_session) =
     [\<lparr>call_token = ''t0'', call_payload = dict_literal [(''sub'', JStr ''u1'')],
       call_context = dict_empty\<rparr>]"
    using m
    by (simp add: remove_claim_def role_claim_def merge_into_access_token_payload_def
          update_calls)
       (simp add: sample_session_def default_context_def)
  show "dict_literal [(''sub'', JStr ''u1'')] \<noteq> dict_literal [(''role'', JNull)]"
    by (simp add: run_eval pydict_eq_iff)
qed

section \<open>A failing result without a reason\<close>

text \<open>
  C10. If the loop reaches a validator whose result is not valid and has no
  \<^verbatim>\<open>reason\<close> entry, \<open>assert_claims\<close> raises \<open>KeyError\<close> for the key
  \<^verbatim>\<open>reason\<close>: no validation error is recorded for it, the validators after it
  are not run, and the gateway is not called.
\<close>

theorem missing_reason_raises_key_error:
  assumes "validate_loop (user_id s) uc pre (access_token_payload s) [] = Inr (w, errs)"
    and "\<not> truthy (dict_get (validate v (refetch (user_id s) uc v w) uc) ''isValid'')"
    and "dict_get (validate v (refetch (user_id s) uc v w) uc) ''reason'' = None"
  shows "result (assert_claims gw (pre @ v # rest) uc s) = Inl (KeyError ''reason'') \<and>
         gateway_calls (assert_claims gw (pre @ v # rest) uc s) = []"
proof -
  have "validate_loop (user_id s) uc (pre @ v # rest) (access_token_payload s) [] =
        Inl (KeyError ''reason'')"
    using assms by (simp add: validate_loop_append Let_def py_getitem_def)
  then show ?thesis by (simp add: assert_claims_result assert_claims_calls)
qed

theorem missing_reason_raises_key_error_witness:
  "result (assert_claims echo_gateway
      ([admin_validator] @ reasonless_validator # [failing_validator]) None sample_session) =
     Inl (KeyError ''reason'') \<and>
   gateway_calls (assert_claims echo_gateway
      ([admin_validator] @ reasonless_validator # [failing_validator]) None sample_session) = []"
proof -
  have a: "\<not> truthy (dict_get (validate reasonless_validator
        (refetch (user_id sample_session) None reasonless_validator
           (dict_literal [(''role'', JStr ''admin''), (''sub'', JStr ''u1'')])) None) ''isValid'')"
    by (simp add: run_eval)
  have b: "dict_get (validate reasonless_validator
        (refetch (user_id sample_session) None reasonless_validator
           (dict_literal [(''role'', JStr ''admin''), (''sub'', JStr ''u1'')])) None) ''reason''
        = None"
    by (simp add: run_eval)
  from missing_reason_raises_key_error [OF sample_loop_admin a b] show ?thesis .
qed

end
